(* ===== verification/Prelude.thy ===== *)
theory Prelude
  imports Main "HOL-Library.Word"
begin

text \<open>
  Shared ground of the development: Go's basic types as HOL types, the fallible
  state-passing style in which every operation with effects is written, the
  collections of simplification rules the component theories fill, and generic
  lemmas on lists, options and words.

  \<^item> Sized integers keep their width: \<^verbatim>\<open>int\<close> and \<^verbatim>\<open>int64\<close> are \<open>64 word\<close> read with
    \<open>sint\<close>, a narrowing conversion is \<open>ucast\<close>, a widening one \<open>scast\<close> or \<open>ucast\<close>.
  \<^item> A \<^verbatim>\<open>string\<close> is the list of its bytes. A \<^verbatim>\<open>[]byte\<close> is \<open>None\<close> for the nil slice
    and \<open>Some\<close> of its bytes otherwise, because SQL keeps the difference (NULL).
  \<^item> A \<^verbatim>\<open>time.Time\<close> is the number of nanoseconds since the zero time
    (year 1, UTC), so that \<^verbatim>\<open>IsZero\<close> is equality with 0.
\<close>

named_theorems op_defs \<open>the combinators of operations, unfolded where a call is run on a known state\<close>

type_synonym go_int = "64 word"
type_synonym int32 = "32 word"
type_synonym int16 = "16 word"
type_synonym uint8 = "8 word"
type_synonym uint32 = "32 word"
type_synonym byte = "8 word"
type_synonym bytes = "byte list option"
type_synonym gotime = int
type_synonym duration = "64 word"

text \<open>\<^verbatim>\<open>len\<close> of a byte slice: the nil slice has length 0.\<close>

definition len_bytes :: "bytes \<Rightarrow> nat" where
  "len_bytes b = (case b of None \<Rightarrow> 0 | Some l \<Rightarrow> length l)"

text \<open>\<^verbatim>\<open>time.Time.IsZero\<close> and \<^verbatim>\<open>time.Time.Add\<close>; a \<^verbatim>\<open>Duration\<close> is a signed count of nanoseconds.\<close>

definition IsZero :: "gotime \<Rightarrow> bool" where
  "IsZero t \<longleftrightarrow> t = 0"

definition time_Add :: "gotime \<Rightarrow> duration \<Rightarrow> gotime" where
  "time_Add t d = t + sint d"

text \<open>\<^verbatim>\<open>time.Time.Sub\<close> saturates at the ends of the 64-bit range.\<close>

definition time_Sub :: "gotime \<Rightarrow> gotime \<Rightarrow> duration" where
  "time_Sub t u =
     (if t - u < - (2 ^ 63) then word_of_int (- (2 ^ 63))
      else if t - u \<ge> 2 ^ 63 then word_of_int (2 ^ 63 - 1) else word_of_int (t - u))"

text \<open>The \<^verbatim>\<open>time\<close> package's unit constants.\<close>

definition time_Millisecond :: duration where "time_Millisecond = 1000000"
definition time_Second :: duration where "time_Second = 1000000000"
definition time_Minute :: duration where "time_Minute = 60 * time_Second"

text \<open>The decimal rendering \<^verbatim>\<open>%d\<close> of an unsigned number.\<close>

fun itoa :: "nat \<Rightarrow> string" where
  "itoa n = (if n < 10 then [char_of (48 + n)] else itoa (n div 10) @ [char_of (48 + n mod 10)])"

declare itoa.simps [simp del]

text \<open>The \<^verbatim>\<open>int -> int32 -> int\<close> round trip of a counter stored in an SQL \<^verbatim>\<open>INT\<close> column.\<close>

definition fits_int32 :: "go_int \<Rightarrow> bool" where
  "fits_int32 x \<longleftrightarrow> - (2 ^ 31) \<le> sint x \<and> sint x < 2 ^ 31"

definition int32_of_int :: "go_int \<Rightarrow> int32" where
  "int32_of_int x = ucast x"

definition int_of_int32 :: "int32 \<Rightarrow> go_int" where
  "int_of_int32 x = scast x"

subsection \<open>Fallible operations on a state\<close>

text \<open>
  An operation that may fail and that changes the state \<open>'w\<close>: the error is \<open>Inl\<close>, the
  state comes back on both branches. \<open>andThen\<close> is Go's
  \<^verbatim>\<open>x, err := f(); if err != nil { return err }\<close>.
\<close>

type_synonym ('e, 'a, 'w) op = "'w \<Rightarrow> ('e + 'a) \<times> 'w"

definition ret :: "'a \<Rightarrow> ('e, 'a, 'w) op" where
  "ret a w = (Inr a, w)"

definition fail :: "'e \<Rightarrow> ('e, 'a, 'w) op" where
  "fail e w = (Inl e, w)"

definition andThen :: "('e, 'a, 'w) op \<Rightarrow> ('a \<Rightarrow> ('e, 'b, 'w) op) \<Rightarrow> ('e, 'b, 'w) op" where
  "andThen m k w = (case m w of (Inl e, w') \<Rightarrow> (Inl e, w') | (Inr a, w') \<Rightarrow> k a w')"

definition lift_sum :: "('e + 'a) \<Rightarrow> ('e, 'a, 'w) op" where
  "lift_sum r w = (r, w)"

text \<open>Rewriting the error of an operation, as \<^verbatim>\<open>fmt.Errorf("...: %w", err)\<close> does.\<close>

definition onError :: "('e \<Rightarrow> 'f) \<Rightarrow> ('e, 'a, 'w) op \<Rightarrow> ('f, 'a, 'w) op" where
  "onError g m w = (case m w of (Inl e, w') \<Rightarrow> (Inl (g e), w') | (Inr a, w') \<Rightarrow> (Inr a, w'))"

text \<open>A \<^verbatim>\<open>for\<close> loop that stops at the first error and collects the results.\<close>

fun mapM :: "('a \<Rightarrow> ('e, 'b, 'w) op) \<Rightarrow> 'a list \<Rightarrow> ('e, 'b list, 'w) op" where
  "mapM f [] w = (Inr [], w)"
| "mapM f (x # xs) w = andThen (f x) (\<lambda>y. andThen (mapM f xs) (\<lambda>ys. ret (y # ys))) w"

text \<open>A \<^verbatim>\<open>for\<close> loop that stops at the first error and threads a value through its body.\<close>

fun foldM :: "('a \<Rightarrow> 's \<Rightarrow> ('e, 's, 'w) op) \<Rightarrow> 'a list \<Rightarrow> 's \<Rightarrow> ('e, 's, 'w) op" where
  "foldM f [] s w = (Inr s, w)"
| "foldM f (x # xs) s w = andThen (f x s) (foldM f xs) w"

declare ret_def [op_defs] fail_def [op_defs] lift_sum_def [op_defs] andThen_def [op_defs] onError_def [op_defs]

lemma ret_eq [simp]: "ret a w = (r, w') \<longleftrightarrow> r = Inr a \<and> w' = w"
  by (auto simp: ret_def)

lemma fail_eq [simp]: "fail e w = (r, w') \<longleftrightarrow> r = Inl e \<and> w' = w"
  by (auto simp: fail_def)

lemma lift_sum_eq [simp]: "lift_sum x w = (r, w') \<longleftrightarrow> r = x \<and> w' = w"
  by (auto simp: lift_sum_def)

lemma andThen_Inr_iff:
  "andThen m k w = (Inr b, w') \<longleftrightarrow> (\<exists>a w1. m w = (Inr a, w1) \<and> k a w1 = (Inr b, w'))"
  by (auto simp: andThen_def split: prod.splits sum.splits)

lemma andThen_Inl_iff:
  "andThen m k w = (Inl e, w') \<longleftrightarrow>
     m w = (Inl e, w') \<or> (\<exists>a w1. m w = (Inr a, w1) \<and> k a w1 = (Inl e, w'))"
  by (auto simp: andThen_def split: prod.splits sum.splits)

lemma andThen_iff:
  "andThen m k w = (r, w') \<longleftrightarrow>
     (\<exists>e. m w = (Inl e, w') \<and> r = Inl e) \<or> (\<exists>a w1. m w = (Inr a, w1) \<and> k a w1 = (r, w'))"
  by (auto simp: andThen_def split: prod.splits sum.splits)

lemma onError_iff:
  "onError g m w = (r, w') \<longleftrightarrow> (\<exists>r0. m w = (r0, w') \<and> r = map_sum g id r0)"
  by (auto simp: onError_def split: prod.splits sum.splits)

lemma onError_Inr_iff [simp]: "onError g m w = (Inr a, w') \<longleftrightarrow> m w = (Inr a, w')"
  by (auto simp: onError_def split: prod.splits sum.splits)

lemma onError_Inl_iff: "onError g m w = (Inl e, w') \<longleftrightarrow> (\<exists>e0. m w = (Inl e0, w') \<and> e = g e0)"
  by (auto simp: onError_def split: prod.splits sum.splits)

lemma onError_snd [simp]: "snd (onError g m w) = snd (m w)"
  by (auto simp: onError_def split: prod.splits sum.splits)

text \<open>
  Whatever the outcome, an operation that keeps a relation to the starting state keeps it
  through composition: the rule behind every ``on an error nothing has changed'' lemma.
\<close>

definition keeps :: "('w \<Rightarrow> 'b) \<Rightarrow> ('e, 'a, 'w) op \<Rightarrow> bool" where
  "keeps f m \<longleftrightarrow> (\<forall>w. f (snd (m w)) = f w)"

lemma keepsD: "keeps f m \<Longrightarrow> m w = (r, w') \<Longrightarrow> f w' = f w"
  by (metis keeps_def snd_conv)

lemma keepsI: "(\<And>w r w'. m w = (r, w') \<Longrightarrow> f w' = f w) \<Longrightarrow> keeps f m"
  by (metis keeps_def prod.collapse)

lemma keeps_ret [simp, intro]: "keeps f (ret a)"
  by (simp add: keeps_def ret_def)

lemma keeps_fail [simp, intro]: "keeps f (fail e)"
  by (simp add: keeps_def fail_def)

lemma keeps_lift_sum [simp, intro]: "keeps f (lift_sum r)"
  by (simp add: keeps_def lift_sum_def)

lemma keeps_onError [simp]: "keeps f (onError g m) \<longleftrightarrow> keeps f m"
  by (simp add: keeps_def)

lemma keeps_andThen [intro]: "keeps f m \<Longrightarrow> (\<And>a. keeps f (k a)) \<Longrightarrow> keeps f (andThen m k)"
  by (auto simp: keeps_def andThen_def split: prod.splits sum.splits) (metis snd_conv)+

lemma keeps_mapM [intro]: "(\<And>x. keeps f (g x)) \<Longrightarrow> keeps f (mapM g xs)"
proof (induction xs)
  case Nil
  then show ?case by (simp add: keeps_def)
next
  case (Cons x xs)
  have "mapM g (x # xs) = andThen (g x) (\<lambda>y. andThen (mapM g xs) (\<lambda>ys. ret (y # ys)))"
    by (rule ext) simp
  with Cons show ?case by (auto intro!: keeps_andThen)
qed

lemma keeps_foldM [intro]: "(\<And>x s. keeps f (g x s)) \<Longrightarrow> keeps f (foldM g xs s)"
proof (induction xs arbitrary: s)
  case Nil
  then show ?case by (simp add: keeps_def)
next
  case (Cons x xs)
  have "foldM g (x # xs) s = andThen (g x s) (foldM g xs)"
    by (rule ext) simp
  with Cons show ?case by (auto intro!: keeps_andThen)
qed

text \<open>A loop whose body, under an invariant \<open>P\<close> of the state, can only succeed with \<open>g x\<close>.\<close>

lemma mapM_Inr_map:
  assumes "\<And>x w y w'. P w \<Longrightarrow> f x w = (Inr y, w') \<Longrightarrow> y = g x \<and> P w'"
  shows "P w \<Longrightarrow> mapM f xs w = (Inr ys, w') \<Longrightarrow> ys = map g xs \<and> P w'"
proof (induction xs arbitrary: w ys)
  case Nil
  then show ?case by simp
next
  case (Cons x xs)
  from Cons.prems(2) obtain y w1 zs where "f x w = (Inr y, w1)" "mapM f xs w1 = (Inr zs, w')"
    and ys: "ys = y # zs"
    by (auto simp: andThen_Inr_iff)
  with assms [OF Cons.prems(1)] have "y = g x" "P w1" "mapM f xs w1 = (Inr zs, w')" by auto
  with Cons.IH [of w1 zs] show ?case by (simp add: ys)
qed

subsection \<open>Lists as tables\<close>

lemma find_Some_distinct:
  assumes "distinct (map f xs)"
  shows "find (\<lambda>x. f x = k) xs = Some x \<longleftrightarrow> x \<in> set xs \<and> f x = k"
  using assms
proof (induction xs)
  case Nil
  then show ?case by simp
next
  case (Cons y ys)
  then show ?case by (auto simp: image_iff)
qed

lemma find_None_key: "find (\<lambda>x. f x = k) xs = None \<longleftrightarrow> k \<notin> f ` set xs"
  by (auto simp: find_None_iff)

lemma find_map_key:
  assumes "\<And>x. f (g x) = f x"
  shows "find (\<lambda>x. f x = k) (map g xs) = map_option g (find (\<lambda>x. f x = k) xs)"
  using assms by (induction xs) auto

lemma find_append:
  "find P (xs @ ys) = (case find P xs of None \<Rightarrow> find P ys | Some x \<Rightarrow> Some x)"
  by (induction xs) auto

lemma distinct_map_filter_key: "distinct (map f xs) \<Longrightarrow> distinct (map f (filter P xs))"
  by (induction xs) auto

lemma find_filter_key:
  "find (\<lambda>x. f x = k) (filter P xs) = Some x \<Longrightarrow> distinct (map f xs) \<Longrightarrow>
     find (\<lambda>x. f x = k) xs = Some x"
  by (simp add: find_Some_distinct distinct_map_filter_key) 

subsection \<open>Signed words\<close>

lemma sint_range_64: "- (2 ^ 63) \<le> sint (x :: 64 word) \<and> sint x < 2 ^ 63"
  using sint_greater_eq [of x] sint_lt [of x] by simp

lemma sint_ucast_32:
  assumes "fits_int32 x"
  shows "sint (ucast x :: 32 word) = sint x"
proof -
  have "sint (ucast x :: 32 word) = signed_take_bit 31 (uint x)"
    by (simp add: sint_uint unsigned_ucast_eq signed_take_bit_take_bit take_bit_word_eq_self)
  also have "\<dots> = signed_take_bit 31 (sint x)"
    by (simp add: sint_uint)
  also have "\<dots> = sint x"
    using assms by (simp add: fits_int32_def signed_take_bit_int_eq_self)
  finally show ?thesis .
qed

lemma int32_round_trip:
  assumes "fits_int32 x"
  shows "int_of_int32 (int32_of_int x) = x"
proof -
  have "int_of_int32 (int32_of_int x) = (word_of_int (sint x) :: 64 word)"
    using sint_ucast_32 [OF assms] by (simp only: int_of_int32_def int32_of_int_def scast_eq)
  then show ?thesis by (simp only: of_int_sint scast_id)
qed

lemma increment_fits:
  assumes "fits_int32 x"
  shows "sint (x + 1) = sint x + 1"
proof -
  have "sint (x + 1) = signed_take_bit 63 (sint x + 1)"
    by (simp add: sint_word_ariths)
  also have "\<dots> = sint x + 1"
    using assms by (intro signed_take_bit_int_eq_self) (simp_all add: fits_int32_def)
  finally show ?thesis .
qed

end
