(* ===== verification/Go_Errors.thy ===== *)
theory Go_Errors
  imports Prelude
begin

text \<open>
  Go error values (\<^verbatim>\<open>src/internal/domain/errors.go\<close>). The sentinels of the domain layer and
  of \<^verbatim>\<open>context\<close> are constructors, an error of the driver, of the broker or of a handler that
  matches no sentinel is \<open>Opaque\<close> with its text, and \<^verbatim>\<open>fmt.Errorf\<close> with one \<^verbatim>\<open>%w\<close> is
  \<open>Wrapped prefix inner suffix\<close>. \<open>errors_Is\<close> walks the chain as \<^verbatim>\<open>errors.Is\<close> does, \<open>Error\<close>
  gives the text of the whole chain.
\<close>

datatype go_error =
    ErrNotFound
  | ErrInvalidStateTransition
  | ErrCyclicDependency
  | ErrDependencyNotReady
  | ErrRetryLimitExhausted
  | ErrDuplicateTask
  | ErrInvalidPriority
  | ErrInvalidArgument
  | ContextCanceled
  | ContextDeadlineExceeded
  | Opaque string
  | Wrapped string go_error string

fun errors_Is :: "go_error \<Rightarrow> go_error \<Rightarrow> bool" where
  "errors_Is (Wrapped p e s) target \<longleftrightarrow> Wrapped p e s = target \<or> errors_Is e target"
| "errors_Is e target \<longleftrightarrow> e = target"

fun Error :: "go_error \<Rightarrow> string" where
  "Error ErrNotFound = ''task not found''"
| "Error ErrInvalidStateTransition = ''invalid state transition''"
| "Error ErrCyclicDependency = ''cyclic dependency in DAG''"
| "Error ErrDependencyNotReady = ''dependency not completed''"
| "Error ErrRetryLimitExhausted = ''retry limit exhausted''"
| "Error ErrDuplicateTask = ''duplicate idempotency key''"
| "Error ErrInvalidPriority = ''priority must be between 0 and 10''"
| "Error ErrInvalidArgument = ''invalid argument''"
| "Error ContextCanceled = ''context canceled''"
| "Error ContextDeadlineExceeded = ''context deadline exceeded''"
| "Error (Opaque s) = s"
| "Error (Wrapped p e s) = p @ Error e @ s"

text \<open>The common form \<^verbatim>\<open>fmt.Errorf("prefix%w", err)\<close>.\<close>

abbreviation errorf :: "string \<Rightarrow> go_error \<Rightarrow> go_error" where
  "errorf p e \<equiv> Wrapped p e ''''"

fun sentinel :: "go_error \<Rightarrow> bool" where
  "sentinel (Opaque _) = False"
| "sentinel (Wrapped _ _ _) = False"
| "sentinel _ = True"

text \<open>The sentinels of the domain layer, those of \<^verbatim>\<open>errors.go\<close>.\<close>

fun domain_sentinel :: "go_error \<Rightarrow> bool" where
  "domain_sentinel ContextCanceled = False"
| "domain_sentinel ContextDeadlineExceeded = False"
| "domain_sentinel e = sentinel e"

text \<open>The innermost error of a chain.\<close>

fun root_cause :: "go_error \<Rightarrow> go_error" where
  "root_cause (Wrapped p e s) = root_cause e"
| "root_cause e = e"

lemma errors_Is_refl [simp]: "errors_Is e e"
  by (cases e) auto

lemma errors_Is_sentinel: "sentinel target \<Longrightarrow> errors_Is e target \<longleftrightarrow> root_cause e = target"
  by (induction e) auto

lemma domain_sentinel_imp: "domain_sentinel e \<Longrightarrow> sentinel e"
  by (cases e) auto

lemma errors_Is_errorf [simp]:
  "sentinel target \<Longrightarrow> errors_Is (Wrapped p e s) target \<longleftrightarrow> errors_Is e target"
  by auto

end
