(* ===== verification/Domain_Dag.thy ===== *)
theory Domain_Dag
  imports Go_Errors
begin

text \<open>
  Cycle detection in the dependency graph (\<^verbatim>\<open>src/internal/domain/dag.go\<close>): a depth-first search
  with three colours over the graph the callback \<open>getDeps\<close> describes. The Go closure recurses
  once per dependency edge and its map starts empty (every node white); the callback may
  describe an infinite graph, so the model carries fuel for the depth of the recursion and is
  \<open>None\<close> when it runs out. One unit more than the number of reachable tasks is enough.
\<close>

datatype colour = White | Gray | Black

function dfs :: "nat \<Rightarrow> (string \<Rightarrow> string list) \<Rightarrow> string \<Rightarrow> (string \<Rightarrow> colour) \<Rightarrow>
      (go_error option \<times> (string \<Rightarrow> colour)) option"
  and dfs_loop :: "nat \<Rightarrow> (string \<Rightarrow> string list) \<Rightarrow> string list \<Rightarrow> (string \<Rightarrow> colour) \<Rightarrow>
      (go_error option \<times> (string \<Rightarrow> colour)) option" where
  "dfs 0 getDeps tid color = None"
| "dfs (Suc fuel) getDeps tid color =
     (case color tid of
        Gray \<Rightarrow> Some (Some (Wrapped '''' ErrCyclicDependency ('': cycle detected at '' @ tid)), color)
      | Black \<Rightarrow> Some (None, color)
      | White \<Rightarrow>
          (case dfs_loop fuel getDeps (getDeps tid) (color(tid := Gray)) of
             None \<Rightarrow> None
           | Some (Some err, color') \<Rightarrow> Some (Some err, color')
           | Some (None, color') \<Rightarrow> Some (None, color'(tid := Black))))"
| "dfs_loop fuel getDeps [] color = Some (None, color)"
| "dfs_loop fuel getDeps (dep # deps) color =
     (case dfs fuel getDeps dep color of
        None \<Rightarrow> None
      | Some (Some err, color') \<Rightarrow> Some (Some err, color')
      | Some (None, color') \<Rightarrow> dfs_loop fuel getDeps deps color')"
  by pat_completeness auto
termination
  by (relation "measures [case_sum (\<lambda>(n, _). n) (\<lambda>(n, _). n),
        case_sum (\<lambda>_. 0) (\<lambda>(_, _, ds, _). Suc (length ds))]") auto

definition CheckCycle :: "nat \<Rightarrow> string \<Rightarrow> (string \<Rightarrow> string list) \<Rightarrow> go_error option option" where
  "CheckCycle fuel startID getDeps = map_option fst (dfs fuel getDeps startID (\<lambda>_. White))"

text \<open>The graph and what a cycle reachable from a task is.\<close>

definition dep_graph :: "(string \<Rightarrow> string list) \<Rightarrow> (string \<times> string) set" where
  "dep_graph getDeps = {(a, b). b \<in> set (getDeps a)}"

definition cycle_from :: "(string \<Rightarrow> string list) \<Rightarrow> string \<Rightarrow> bool" where
  "cycle_from g a \<longleftrightarrow> (\<exists>y. (a, y) \<in> (dep_graph g)\<^sup>* \<and> (y, y) \<in> (dep_graph g)\<^sup>+)"

text \<open>What holds of the colours between calls: black tasks are explored and on no cycle.\<close>

definition black_done :: "(string \<Rightarrow> string list) \<Rightarrow> (string \<Rightarrow> colour) \<Rightarrow> bool" where
  "black_done g c \<longleftrightarrow>
     (\<forall>b. c b = Black \<longrightarrow> (\<forall>d \<in> set (g b). c d = Black) \<and> (b, b) \<notin> (dep_graph g)\<^sup>+)"

lemmas dfs_splits = option.splits prod.splits colour.splits

subsection \<open>A search that reports no error\<close>

lemma black_closed:
  assumes "black_done g c" "c a = Black" "(a, b) \<in> (dep_graph g)\<^sup>*"
  shows "c b = Black"
  using assms(3,2)
proof (induction rule: rtrancl_induct)
  case base
  then show ?case by simp
next
  case (step y z)
  then show ?case using assms(1) by (auto simp: black_done_def dep_graph_def)
qed

lemma black_done_finish:
  assumes "black_done g c" "c tid \<noteq> Black" "\<forall>d \<in> set (g tid). c d = Black"
  shows "black_done g (c(tid := Black))"
proof -
  have "(tid, tid) \<notin> (dep_graph g)\<^sup>+"
  proof
    assume "(tid, tid) \<in> (dep_graph g)\<^sup>+"
    then obtain d where "d \<in> set (g tid)" "(d, tid) \<in> (dep_graph g)\<^sup>*"
      by (auto dest!: tranclD simp: dep_graph_def)
    with assms show False by (auto dest: black_closed)
  qed
  then show ?thesis using assms by (auto simp: black_done_def)
qed

lemma dfs_done:
  "dfs n g tid c = Some (None, c') \<Longrightarrow> black_done g c \<Longrightarrow>
     black_done g c' \<and> c' tid = Black \<and> (\<forall>x. c x = Black \<longrightarrow> c' x = Black) \<and>
     (\<forall>x. c' x = Gray \<longleftrightarrow> c x = Gray)"
  "dfs_loop n g ds c = Some (None, c') \<Longrightarrow> black_done g c \<Longrightarrow>
     black_done g c' \<and> (\<forall>d \<in> set ds. c' d = Black) \<and> (\<forall>x. c x = Black \<longrightarrow> c' x = Black) \<and>
     (\<forall>x. c' x = Gray \<longleftrightarrow> c x = Gray)"
proof (induction n g tid c and n g ds c arbitrary: c' and c' rule: dfs_dfs_loop.induct)
  case (2 fuel g tid c)
  show ?case
  proof (cases "c tid")
    case White
    with "2.prems"(1) obtain c1 where c1: "dfs_loop fuel g (g tid) (c(tid := Gray)) = Some (None, c1)"
      and c': "c' = c1(tid := Black)"
      by (auto split: dfs_splits)
    have "black_done g (c(tid := Gray))"
      using "2.prems"(2) White by (auto simp: black_done_def)
    with "2.IH" [OF White c1] have *: "black_done g c1" "\<forall>d \<in> set (g tid). c1 d = Black"
      "\<forall>x. (c(tid := Gray)) x = Black \<longrightarrow> c1 x = Black" "\<forall>x. c1 x = Gray \<longleftrightarrow> (c(tid := Gray)) x = Gray"
      by blast+
    then have "c1 tid = Gray" by (metis fun_upd_same)
    then have "c1 tid \<noteq> Black" by simp
    with *(1,2) have "black_done g c'" unfolding c' by (intro black_done_finish)
    moreover have "c' tid = Black" "\<forall>x. c x = Black \<longrightarrow> c' x = Black"
      using *(3) by (auto simp: c' split: if_splits)
    moreover have "c' x = Gray \<longleftrightarrow> c x = Gray" for x
      using *(4) White by (simp add: c')
    ultimately show ?thesis by blast
  qed (use "2.prems" in auto)
next
  case (4 fuel g d ds c)
  from "4.prems"(1) obtain c1
    where c1: "dfs fuel g d c = Some (None, c1)" "dfs_loop fuel g ds c1 = Some (None, c')"
    by (auto split: dfs_splits)
  note first = "4.IH"(1) [OF c1(1) "4.prems"(2)]
  then have "black_done g c1" by blast
  note rest = "4.IH"(2) [OF c1(1) refl refl c1(2) this]
  from first rest show ?case by simp
qed auto

subsection \<open>A search that reports an error\<close>

lemma dfs_gray:
  "dfs n g tid c = Some (None, c') \<Longrightarrow> c' x = Gray \<longleftrightarrow> c x = Gray"
  "dfs_loop n g ds c = Some (None, c') \<Longrightarrow> c' x = Gray \<longleftrightarrow> c x = Gray"
proof (induction n g tid c and n g ds c arbitrary: c' and c' rule: dfs_dfs_loop.induct)
  case (2 fuel g tid c)
  then show ?case by (fastforce split: dfs_splits if_splits)
next
  case (4 fuel g d ds c)
  then show ?case by (fastforce split: dfs_splits)
qed auto

text \<open>
  The gray tasks are the ones on the recursion stack, so each has a path to the task being
  entered; meeting a gray task closes a cycle.
\<close>

lemma dfs_error:
  "dfs n g tid c = Some (Some e, c') \<Longrightarrow> (\<And>x. c x = Gray \<Longrightarrow> (x, tid) \<in> (dep_graph g)\<^sup>+) \<Longrightarrow>
     cycle_from g tid \<and> errors_Is e ErrCyclicDependency"
  "dfs_loop n g ds c = Some (Some e, c') \<Longrightarrow>
     (\<And>d x. d \<in> set ds \<Longrightarrow> c x = Gray \<Longrightarrow> (x, d) \<in> (dep_graph g)\<^sup>+) \<Longrightarrow>
     (\<exists>d \<in> set ds. cycle_from g d) \<and> errors_Is e ErrCyclicDependency"
proof (induction n g tid c and n g ds c arbitrary: c' and c' rule: dfs_dfs_loop.induct)
  case (2 fuel g tid c)
  show ?case
  proof (cases "c tid")
    case White
    with "2.prems"(1) have loop: "dfs_loop fuel g (g tid) (c(tid := Gray)) = Some (Some e, c')"
      by (auto split: dfs_splits)
    have "(x, d) \<in> (dep_graph g)\<^sup>+" if "d \<in> set (g tid)" "(c(tid := Gray)) x = Gray" for d x
    proof -
      from that(1) have "(tid, d) \<in> dep_graph g" by (simp add: dep_graph_def)
      with "2.prems"(2) that(2) show ?thesis
        by (cases "x = tid") (auto intro: trancl_into_trancl)
    qed
    from "2.IH" [OF White loop this] obtain d where "d \<in> set (g tid)" "cycle_from g d"
      and e: "errors_Is e ErrCyclicDependency" by blast
    then have "cycle_from g tid"
      unfolding cycle_from_def dep_graph_def by (blast intro: converse_rtrancl_into_rtrancl)
    with e show ?thesis by blast
  next
    case Gray
    with "2.prems" show ?thesis by (auto simp: cycle_from_def)
  qed (use "2.prems" in simp)
next
  case (4 fuel g d ds c)
  show ?case
  proof (cases "\<exists>c1. dfs fuel g d c = Some (None, c1)")
    case True
    then obtain c1 where c1: "dfs fuel g d c = Some (None, c1)" by blast
    with "4.prems"(1) have "dfs_loop fuel g ds c1 = Some (Some e, c')" by simp
    from "4.IH"(2) [OF c1 refl refl this] "4.prems"(2) show ?thesis
      by (auto simp: dfs_gray(1) [OF c1])
  next
    case False
    with "4.prems"(1) have "dfs fuel g d c = Some (Some e, c')"
      by (auto split: dfs_splits)
    from "4.IH"(1) [OF this] "4.prems"(2) show ?thesis by auto
  qed
qed auto

subsection \<open>Termination\<close>

lemma dfs_white:
  "dfs n g tid c = Some (None, c') \<Longrightarrow> c' x = White \<Longrightarrow> c x = White"
  "dfs_loop n g ds c = Some (None, c') \<Longrightarrow> c' x = White \<Longrightarrow> c x = White"
proof (induction n g tid c and n g ds c arbitrary: c' and c' rule: dfs_dfs_loop.induct)
  case (2 fuel g tid c)
  then show ?case by (fastforce split: dfs_splits if_splits)
next
  case (4 fuel g d ds c)
  then show ?case by (fastforce split: dfs_splits)
qed auto

lemma dfs_fuel:
  assumes V: "finite V" "\<And>a. a \<in> V \<Longrightarrow> set (g a) \<subseteq> V"
  shows "tid \<in> V \<Longrightarrow> card {v \<in> V. c v = White} < n \<Longrightarrow> dfs n g tid c \<noteq> None"
    and "set ds \<subseteq> V \<Longrightarrow> card {v \<in> V. c v = White} < n \<Longrightarrow> dfs_loop n g ds c \<noteq> None"
  using V
proof (induction n g tid c and n g ds c rule: dfs_dfs_loop.induct)
  case (2 fuel g tid c)
  show ?case
  proof (cases "c tid")
    case White
    have eq: "{v \<in> V. (c(tid := Gray)) v = White} = {v \<in> V. c v = White} - {tid}" by auto
    have "card {v \<in> V. (c(tid := Gray)) v = White} < card {v \<in> V. c v = White}"
      unfolding eq using "2.prems"(1,3) White by (intro card_Diff1_less) auto
    with "2.prems"(2) have "card {v \<in> V. (c(tid := Gray)) v = White} < fuel" by simp
    with "2.IH" [OF White] "2.prems" have "dfs_loop fuel g (g tid) (c(tid := Gray)) \<noteq> None"
      by blast
    with White show ?thesis by (auto split: dfs_splits)
  qed auto
next
  case (4 fuel g d ds c)
  have d: "dfs fuel g d c \<noteq> None" using "4.IH"(1) "4.prems" by auto
  have "dfs_loop fuel g ds c1 \<noteq> None" if c1: "dfs fuel g d c = Some (None, c1)" for c1
  proof -
    have "card {v \<in> V. c1 v = White} \<le> card {v \<in> V. c v = White}"
      using "4.prems"(3) by (intro card_mono) (auto dest: dfs_white(1) [OF c1])
    with "4.IH"(2) [OF c1 refl refl] "4.prems" show ?thesis by auto
  qed
  with d show ?case by (auto split: dfs_splits)
qed auto

text \<open>
  C31. On a finite reachable graph \<^verbatim>\<open>CheckCycle\<close> terminates (one unit of fuel more than the number
  of reachable tasks suffices) and reports an error exactly when a cycle is reachable from the
  start; the error is an \<^verbatim>\<open>ErrCyclicDependency\<close>.
\<close>

theorem CheckCycle_correct:
  assumes "finite ((dep_graph getDeps)\<^sup>* `` {startID})"
    and "card ((dep_graph getDeps)\<^sup>* `` {startID}) < fuel"
  shows "\<exists>r. CheckCycle fuel startID getDeps = Some r \<and>
     (r = None \<longleftrightarrow> \<not> cycle_from getDeps startID) \<and>
     (\<forall>e. r = Some e \<longrightarrow> errors_Is e ErrCyclicDependency)"
proof -
  let ?V = "(dep_graph getDeps)\<^sup>* `` {startID}"
  have "set (getDeps a) \<subseteq> ?V" if "a \<in> ?V" for a
    using that by (auto simp: dep_graph_def intro: rtrancl_into_rtrancl)
  then have "dfs fuel getDeps startID (\<lambda>_. White) \<noteq> None"
    using assms by (intro dfs_fuel(1) [where V = ?V]) (simp_all add: Image_singleton)
  then obtain r c where rc: "dfs fuel getDeps startID (\<lambda>_. White) = Some (r, c)" by auto
  show ?thesis
  proof (cases r)
    case None
    have "black_done getDeps (\<lambda>_. White)" by (simp add: black_done_def)
    from dfs_done(1) [OF rc [unfolded None] this] have "black_done getDeps c" "c startID = Black"
      by blast+
    then have "\<not> cycle_from getDeps startID"
      unfolding cycle_from_def by (meson black_closed black_done_def)
    with None rc show ?thesis by (simp add: CheckCycle_def)
  next
    case (Some e)
    with dfs_error(1) [of fuel getDeps startID "\<lambda>_. White" e c] rc show ?thesis
      by (simp add: CheckCycle_def)
  qed
qed

end
