(* ===== verification/Database.thy ===== *)
theory Database
  imports Go_Errors "HOL-Library.Product_Lexorder"
begin

text \<open>
  The PostgreSQL schema (\<^verbatim>\<open>src/migrations/001_init.sql\<close>) and the SQL statements embedded in
  \<^verbatim>\<open>src/internal/adapter/repo/postgres/repo.go\<close>. A table is the list of its rows, in an order the
  code never relies on (ties of an \<^verbatim>\<open>ORDER BY\<close> are the only place where it shows, and the
  statements are proved for every order of the table). A statement is a function on the
  database: it returns the rows or the new tables, or the error of the constraint it violates.

  Columns keep their SQL type: \<^verbatim>\<open>UUID\<close> is a 128-bit word, \<^verbatim>\<open>SMALLINT\<close> and \<^verbatim>\<open>INT\<close> are 16- and
  32-bit words, a nullable \<^verbatim>\<open>TEXT\<close> or \<^verbatim>\<open>BYTEA\<close> is an option, \<^verbatim>\<open>TIMESTAMPTZ\<close> keeps microseconds
  (\<open>timestamptz\<close> rounds a Go time down to one). The text of the server's error messages is not
  modelled, only the SQLSTATE.
\<close>

type_synonym uuid = "128 word"

record task_row =
  r_id :: uuid
  r_type :: string
  r_payload :: bytes
  r_priority :: int16
  r_status :: string
  r_attempt_count :: int32
  r_retry_limit :: int32
  r_scheduled_at :: gotime
  r_created_at :: gotime
  r_updated_at :: gotime
  r_worker_id :: "string option"
  r_last_error :: "string option"
  r_result :: bytes
  r_idempotency_key :: "string option"

record database =
  tasks :: "task_row list"
  task_dependencies :: "(uuid \<times> uuid) list"

definition timestamptz :: "gotime \<Rightarrow> gotime" where
  "timestamptz t = t div 1000 * 1000"

definition unique_violation :: go_error where
  "unique_violation = Opaque ''SQLSTATE 23505''"

definition check_violation :: go_error where
  "check_violation = Opaque ''SQLSTATE 23514''"

definition foreign_key_violation :: go_error where
  "foreign_key_violation = Opaque ''SQLSTATE 23503''"

definition invalid_row_count :: go_error where
  "invalid_row_count = Opaque ''SQLSTATE 2201W''"

subsection \<open>Statements\<close>

text \<open>\<^verbatim>\<open>INSERT INTO tasks\<close> with the constraints of the table.\<close>

definition insert_task :: "task_row \<Rightarrow> database \<Rightarrow> go_error + database" where
  "insert_task r d =
     (if sint (r_priority r) < 0 \<or> sint (r_priority r) > 10 then Inl check_violation
      else if r_id r \<in> r_id ` set (tasks d) then Inl unique_violation
      else if r_idempotency_key r \<noteq> None \<and> r_idempotency_key r \<in> r_idempotency_key ` set (tasks d)
      then Inl unique_violation
      else Inr (d\<lparr>tasks := tasks d @ [r]\<rparr>))"

text \<open>\<^verbatim>\<open>INSERT INTO task_dependencies\<close>: both ends exist, the pair is new.\<close>

definition insert_dep :: "uuid \<Rightarrow> uuid \<Rightarrow> database \<Rightarrow> go_error + database" where
  "insert_dep task dep d =
     (if (task, dep) \<in> set (task_dependencies d) then Inl unique_violation
      else if task \<notin> r_id ` set (tasks d) \<or> dep \<notin> r_id ` set (tasks d)
      then Inl foreign_key_violation
      else Inr (d\<lparr>task_dependencies := task_dependencies d @ [(task, dep)]\<rparr>))"

text \<open>\<^verbatim>\<open>SELECT ... WHERE id = $1\<close>, \<^verbatim>\<open>WHERE idempotency_key = $1\<close> (NULL never matches) and the edges of a task.\<close>

definition select_task :: "uuid \<Rightarrow> database \<Rightarrow> task_row option" where
  "select_task u d = find (\<lambda>r. r_id r = u) (tasks d)"

definition select_by_key :: "string \<Rightarrow> database \<Rightarrow> task_row option" where
  "select_by_key k d = find (\<lambda>r. r_idempotency_key r = Some k) (tasks d)"

definition select_deps :: "uuid \<Rightarrow> database \<Rightarrow> uuid list" where
  "select_deps u d = map snd (filter (\<lambda>e. fst e = u) (task_dependencies d))"

text \<open>\<^verbatim>\<open>UPDATE ... WHERE\<close>: the number of rows affected and the new table.\<close>

definition update_where :: "(task_row \<Rightarrow> bool) \<Rightarrow> (task_row \<Rightarrow> task_row) \<Rightarrow> database \<Rightarrow> nat \<times> database" where
  "update_where P f d =
     (length (filter P (tasks d)), d\<lparr>tasks := map (\<lambda>r. if P r then f r else r) (tasks d)\<rparr>)"

text \<open>\<^verbatim>\<open>DELETE ... WHERE\<close>, with \<^verbatim>\<open>ON DELETE CASCADE\<close> on both ends of an edge.\<close>

definition delete_where :: "(task_row \<Rightarrow> bool) \<Rightarrow> database \<Rightarrow> nat \<times> database" where
  "delete_where P d =
     (let gone = r_id ` set (filter P (tasks d)) in
      (length (filter P (tasks d)),
       d\<lparr>tasks := filter (\<lambda>r. \<not> P r) (tasks d),
         task_dependencies :=
           filter (\<lambda>e. fst e \<notin> gone \<and> snd e \<notin> gone) (task_dependencies d)\<rparr>))"

text \<open>The \<^verbatim>\<open>WHERE\<close> clause of the scheduler's query, its \<^verbatim>\<open>ORDER BY\<close> key, and the whole statement.
  \<open>locked\<close> are the rows other transactions hold: \<^verbatim>\<open>SKIP LOCKED\<close> passes over them before \<^verbatim>\<open>LIMIT\<close>
  counts.\<close>

definition blocked :: "database \<Rightarrow> uuid \<Rightarrow> bool" where
  "blocked d u \<longleftrightarrow>
     (\<exists>td \<in> set (task_dependencies d). \<exists>dep \<in> set (tasks d).
        r_id dep = snd td \<and> fst td = u \<and> r_status dep \<noteq> ''completed'')"

definition ready :: "gotime \<Rightarrow> database \<Rightarrow> task_row \<Rightarrow> bool" where
  "ready now d r \<longleftrightarrow>
     r_status r = ''pending'' \<and> r_scheduled_at r \<le> now \<and> \<not> blocked d (r_id r)"

definition ready_order :: "task_row \<Rightarrow> int \<times> int" where
  "ready_order r = (- sint (r_priority r), r_scheduled_at r)"

definition select_ready :: "(uuid \<Rightarrow> bool) \<Rightarrow> gotime \<Rightarrow> int32 \<Rightarrow> database \<Rightarrow> go_error + task_row list" where
  "select_ready locked now limit d =
     (if sint limit < 0 then Inl invalid_row_count
      else Inr (take (nat (sint limit))
             (filter (\<lambda>r. \<not> locked (r_id r)) (sort_key ready_order (filter (ready now d) (tasks d))))))"

subsection \<open>Consistency of the tables\<close>

text \<open>What the constraints of the schema promise of every committed database.\<close>

definition ids_ok :: "database \<Rightarrow> bool" where
  "ids_ok d \<longleftrightarrow> distinct (map r_id (tasks d))"

definition priorities_ok :: "database \<Rightarrow> bool" where
  "priorities_ok d \<longleftrightarrow>
     (\<forall>r \<in> set (tasks d). 0 \<le> sint (r_priority r) \<and> sint (r_priority r) \<le> 10)"

definition keys_ok :: "database \<Rightarrow> bool" where
  "keys_ok d \<longleftrightarrow>
     distinct (map r_idempotency_key (filter (\<lambda>r. r_idempotency_key r \<noteq> None) (tasks d)))"

definition edges_ok :: "database \<Rightarrow> bool" where
  "edges_ok d \<longleftrightarrow>
     distinct (task_dependencies d) \<and>
     fst ` set (task_dependencies d) \<subseteq> r_id ` set (tasks d) \<and>
     snd ` set (task_dependencies d) \<subseteq> r_id ` set (tasks d)"

definition schema_ok :: "database \<Rightarrow> bool" where
  "schema_ok d \<longleftrightarrow> ids_ok d \<and> priorities_ok d \<and> keys_ok d \<and> edges_ok d"

lemmas schema_defs = ids_ok_def priorities_ok_def keys_ok_def edges_ok_def

text \<open>The empty database the migration creates.\<close>

definition empty_db :: database where
  "empty_db = \<lparr>tasks = [], task_dependencies = []\<rparr>"

lemma schema_ok_empty [simp]: "schema_ok empty_db"
  by (simp add: schema_ok_def schema_defs empty_db_def)

lemma timestamptz_le: "timestamptz t \<le> t"
  by (simp add: timestamptz_def minus_mod_eq_div_mult [symmetric])

lemma timestamptz_idem [simp]: "timestamptz (timestamptz t) = timestamptz t"
  by (simp add: timestamptz_def)

lemma timestamptz_mono: "s \<le> t \<Longrightarrow> timestamptz s \<le> timestamptz t"
  by (simp add: timestamptz_def zdiv_mono1)

lemma insert_task_Inr_iff:
  "insert_task r d = Inr d' \<longleftrightarrow>
     0 \<le> sint (r_priority r) \<and> sint (r_priority r) \<le> 10 \<and> r_id r \<notin> r_id ` set (tasks d) \<and>
     (r_idempotency_key r = None \<or> r_idempotency_key r \<notin> r_idempotency_key ` set (tasks d)) \<and>
     d' = d\<lparr>tasks := tasks d @ [r]\<rparr>"
  by (auto simp: insert_task_def)

lemma insert_dep_Inr_iff:
  "insert_dep u v d = Inr d' \<longleftrightarrow>
     (u, v) \<notin> set (task_dependencies d) \<and> u \<in> r_id ` set (tasks d) \<and> v \<in> r_id ` set (tasks d) \<and>
     d' = d\<lparr>task_dependencies := task_dependencies d @ [(u, v)]\<rparr>"
  by (auto simp: insert_dep_def)

lemma schema_ok_insert_task:
  assumes "insert_task r d = Inr d'" and "schema_ok d"
  shows "schema_ok d'"
proof -
  have d': "d' = d\<lparr>tasks := tasks d @ [r]\<rparr>" and new: "r_id r \<notin> r_id ` set (tasks d)"
    "0 \<le> sint (r_priority r) \<and> sint (r_priority r) \<le> 10"
    "r_idempotency_key r = None \<or> r_idempotency_key r \<notin> r_idempotency_key ` set (tasks d)"
    using assms(1) by (simp_all add: insert_task_Inr_iff)
  from assms(2) have ok: "ids_ok d" "priorities_ok d" "keys_ok d" "edges_ok d"
    by (simp_all add: schema_ok_def)
  have "ids_ok d'" using ok(1) new(1) by (simp add: d' ids_ok_def)
  moreover have "priorities_ok d'" using ok(2) new(2) by (simp add: d' priorities_ok_def)
  moreover have "keys_ok d'"
    using ok(3) new(3) by (auto simp: keys_ok_def d')
  moreover have "edges_ok d'" using ok(4) by (auto simp: d' edges_ok_def)
  ultimately show ?thesis by (simp add: schema_ok_def)
qed

lemma schema_ok_insert_dep:
  assumes "insert_dep u v d = Inr d'" and "schema_ok d"
  shows "schema_ok d'"
proof -
  have d': "d' = d\<lparr>task_dependencies := task_dependencies d @ [(u, v)]\<rparr>"
    and new: "(u, v) \<notin> set (task_dependencies d)" "u \<in> r_id ` set (tasks d)" "v \<in> r_id ` set (tasks d)"
    using assms(1) by (simp_all add: insert_dep_Inr_iff)
  then have "edges_ok d'" using assms(2) by (simp add: schema_ok_def edges_ok_def)
  moreover have "ids_ok d' = ids_ok d" "priorities_ok d' = priorities_ok d" "keys_ok d' = keys_ok d"
    by (simp_all add: d' schema_defs)
  ultimately show ?thesis using assms(2) by (simp add: schema_ok_def)
qed

lemma update_where_simps [simp]:
  "tasks (snd (update_where P f d)) = map (\<lambda>r. if P r then f r else r) (tasks d)"
  "task_dependencies (snd (update_where P f d)) = task_dependencies d"
  by (simp_all add: update_where_def)

lemma schema_ok_update:
  assumes "schema_ok d"
    and f: "\<And>r. r_id (f r) = r_id r" "\<And>r. r_priority (f r) = r_priority r"
      "\<And>r. r_idempotency_key (f r) = r_idempotency_key r"
  shows "schema_ok (snd (update_where P f d))"
proof -
  let ?g = "\<lambda>r. if P r then f r else r"
  let ?d = "snd (update_where P f d)"
  have g: "r_id (?g r) = r_id r" "r_priority (?g r) = r_priority r"
    "r_idempotency_key (?g r) = r_idempotency_key r" for r
    by (simp_all add: f)
  have ids: "map r_id (tasks ?d) = map r_id (tasks d)"
    by (simp add: f)
  then have "r_id ` set (tasks ?d) = r_id ` set (tasks d)" by (metis list.set_map)
  then have "edges_ok ?d = edges_ok d" by (simp add: edges_ok_def)
  moreover have "ids_ok ?d = ids_ok d" by (simp only: ids_ok_def ids)
  moreover have "priorities_ok ?d = priorities_ok d"
    by (simp only: priorities_ok_def update_where_simps set_map ball_simps g)
  moreover have "keys_ok ?d = keys_ok d"
    by (simp only: keys_ok_def update_where_simps filter_map map_map o_def g)
  ultimately show ?thesis using assms(1) by (simp add: schema_ok_def)
qed

lemma image_filter_cases: "y \<in> f ` A \<Longrightarrow> y \<notin> f ` {x \<in> A. P x} \<Longrightarrow> y \<in> f ` {x \<in> A. \<not> P x}"
  by blast

lemma schema_ok_delete:
  assumes "schema_ok d"
  shows "schema_ok (snd (delete_where P d))"
proof -
  let ?d = "snd (delete_where P d)"
  from assms have ok: "ids_ok d" "priorities_ok d" "keys_ok d" "edges_ok d"
    by (simp_all add: schema_ok_def)
  have "ids_ok ?d" using ok(1) by (simp add: ids_ok_def delete_where_def Let_def distinct_map_filter_key)
  moreover have "priorities_ok ?d" using ok(2) by (simp add: priorities_ok_def delete_where_def Let_def)
  moreover have "keys_ok ?d"
    using distinct_map_filter_key [OF ok(3) [unfolded keys_ok_def], of "\<lambda>r. \<not> P r"]
    by (simp add: keys_ok_def delete_where_def Let_def conj_commute)
  moreover have "edges_ok ?d"
    using ok(4) unfolding edges_ok_def delete_where_def Let_def
    by (auto simp: image_subset_iff intro!: image_filter_cases)
  ultimately show ?thesis by (simp add: schema_ok_def)
qed

end
