(* ===== verification/Domain_Task.thy ===== *)
theory Domain_Task
  imports Go_Errors
begin

text \<open>
  The aggregate root (\<^verbatim>\<open>src/internal/domain/task.go\<close>): the status constants, the task
  record, the transition table and the three methods of \<^verbatim>\<open>Task\<close>. A \<^verbatim>\<open>Status\<close> is a Go string,
  so any string can occur and the five constants are what the table knows. \<^verbatim>\<open>time.Now()\<close>
  inside \<^verbatim>\<open>TransitionTo\<close> is the argument \<open>now\<close>.
\<close>

type_synonym TaskID = string
type_synonym Status = string
type_synonym Priority = uint8

definition StatusPending :: Status where "StatusPending = ''pending''"
definition StatusRunning :: Status where "StatusRunning = ''running''"
definition StatusCompleted :: Status where "StatusCompleted = ''completed''"
definition StatusFailed :: Status where "StatusFailed = ''failed''"
definition StatusCancelled :: Status where "StatusCancelled = ''cancelled''"

definition PriorityMin :: Priority where "PriorityMin = 0"
definition PriorityMax :: Priority where "PriorityMax = 10"

definition Priority_Validate :: "Priority \<Rightarrow> go_error option" where
  "Priority_Validate p =
     (if p > PriorityMax
      then Some (Wrapped '''' ErrInvalidPriority ('': got '' @ itoa (unat p)))
      else None)"

definition allowedTransitions :: "Status \<rightharpoonup> Status list" where
  "allowedTransitions =
     [StatusPending \<mapsto> [StatusRunning, StatusCancelled],
      StatusRunning \<mapsto> [StatusCompleted, StatusFailed, StatusPending],
      StatusFailed \<mapsto> [StatusPending],
      StatusCompleted \<mapsto> [],
      StatusCancelled \<mapsto> []]"

record Task =
  ID :: TaskID
  Type :: string
  Payload :: bytes
  Priority :: Priority
  Status :: Status
  Dependencies :: "TaskID list"
  ScheduledAt :: gotime
  CreatedAt :: gotime
  UpdatedAt :: gotime
  AttemptCount :: go_int
  RetryLimit :: go_int
  LastError :: string
  Result :: bytes
  WorkerID :: string
  IdempotencyKey :: string

text \<open>Indexing a map at a missing key gives the nil slice.\<close>

definition transitions_of :: "Status \<Rightarrow> Status list" where
  "transitions_of s = (case allowedTransitions s of None \<Rightarrow> [] | Some l \<Rightarrow> l)"

fun TransitionTo_loop :: "Status list \<Rightarrow> Status \<Rightarrow> gotime \<Rightarrow> Task \<Rightarrow> go_error + Task" where
  "TransitionTo_loop [] next now t =
     Inl (Wrapped '''' ErrInvalidStateTransition
            ('': '' @ Status t @ [CHR 0x20, CHR 0xE2, CHR 0x86, CHR 0x92, CHR 0x20] @ next))"
| "TransitionTo_loop (allowed # rest) next now t =
     (if allowed = next then Inr (t\<lparr>Status := next, UpdatedAt := now\<rparr>)
      else TransitionTo_loop rest next now t)"

definition TransitionTo :: "Status \<Rightarrow> gotime \<Rightarrow> Task \<Rightarrow> go_error + Task" where
  "TransitionTo next now t = TransitionTo_loop (transitions_of (Status t)) next now t"

definition IncrementAttempt :: "Task \<Rightarrow> Task" where
  "IncrementAttempt t = t\<lparr>AttemptCount := AttemptCount t + 1\<rparr>"

definition CanRetry :: "Task \<Rightarrow> bool" where
  "CanRetry t \<longleftrightarrow> sint (AttemptCount t) < sint (RetryLimit t)"

subsection \<open>What the table means\<close>

definition known_status :: "Status \<Rightarrow> bool" where
  "known_status s \<longleftrightarrow>
     s \<in> {StatusPending, StatusRunning, StatusCompleted, StatusFailed, StatusCancelled}"

definition allowed :: "Status \<Rightarrow> Status \<Rightarrow> bool" where
  "allowed a b \<longleftrightarrow> b \<in> set (transitions_of a)"

text \<open>The statuses a task leaves only never (\<^verbatim>\<open>completed\<close>, \<^verbatim>\<open>cancelled\<close>).\<close>

definition terminal :: "Status \<Rightarrow> bool" where
  "terminal s \<longleftrightarrow> s = StatusCompleted \<or> s = StatusCancelled"

lemmas status_defs = StatusPending_def StatusRunning_def StatusCompleted_def StatusFailed_def
  StatusCancelled_def

lemma status_distinct [simp]:
  "StatusPending \<noteq> StatusRunning" "StatusPending \<noteq> StatusCompleted"
  "StatusPending \<noteq> StatusFailed" "StatusPending \<noteq> StatusCancelled"
  "StatusRunning \<noteq> StatusPending" "StatusRunning \<noteq> StatusCompleted"
  "StatusRunning \<noteq> StatusFailed" "StatusRunning \<noteq> StatusCancelled"
  "StatusCompleted \<noteq> StatusPending" "StatusCompleted \<noteq> StatusRunning"
  "StatusCompleted \<noteq> StatusFailed" "StatusCompleted \<noteq> StatusCancelled"
  "StatusFailed \<noteq> StatusPending" "StatusFailed \<noteq> StatusRunning"
  "StatusFailed \<noteq> StatusCompleted" "StatusFailed \<noteq> StatusCancelled"
  "StatusCancelled \<noteq> StatusPending" "StatusCancelled \<noteq> StatusRunning"
  "StatusCancelled \<noteq> StatusCompleted" "StatusCancelled \<noteq> StatusFailed"
  by (simp_all add: status_defs)

lemma transitions_of_simps [simp]:
  "transitions_of StatusPending = [StatusRunning, StatusCancelled]"
  "transitions_of StatusRunning = [StatusCompleted, StatusFailed, StatusPending]"
  "transitions_of StatusFailed = [StatusPending]"
  "transitions_of StatusCompleted = []"
  "transitions_of StatusCancelled = []"
  by (simp_all add: transitions_of_def allowedTransitions_def)

lemma transitions_of_unknown: "\<not> known_status s \<Longrightarrow> transitions_of s = []"
  by (auto simp: known_status_def transitions_of_def allowedTransitions_def)

lemma allowed_iff:
  "allowed a b \<longleftrightarrow>
     a = StatusPending \<and> (b = StatusRunning \<or> b = StatusCancelled) \<or>
     a = StatusRunning \<and> (b = StatusCompleted \<or> b = StatusFailed \<or> b = StatusPending) \<or>
     a = StatusFailed \<and> b = StatusPending"
proof (cases "known_status a")
  case True
  then show ?thesis by (auto simp: known_status_def allowed_def)
next
  case False
  then show ?thesis
    by (auto simp: allowed_def transitions_of_unknown) (auto simp: known_status_def)
qed

lemma allowed_known: "allowed a b \<Longrightarrow> known_status a \<and> known_status b"
  by (auto simp: allowed_iff known_status_def)

lemma terminal_no_exit: "terminal a \<Longrightarrow> \<not> allowed a b"
  by (auto simp: terminal_def allowed_iff)

lemma TransitionTo_loop_Inr_iff:
  "TransitionTo_loop l next now t = Inr t' \<longleftrightarrow>
     next \<in> set l \<and> t' = t\<lparr>Status := next, UpdatedAt := now\<rparr>"
  by (induction l) auto

lemma TransitionTo_loop_Inl:
  "TransitionTo_loop l next now t = Inl e \<Longrightarrow> root_cause e = ErrInvalidStateTransition"
  by (induction l) (auto split: if_splits)

lemma TransitionTo_Inr_iff:
  "TransitionTo next now t = Inr t' \<longleftrightarrow>
     allowed (Status t) next \<and> t' = t\<lparr>Status := next, UpdatedAt := now\<rparr>"
  by (simp add: TransitionTo_def TransitionTo_loop_Inr_iff allowed_def)

lemma TransitionTo_Inl:
  "TransitionTo next now t = Inl e \<Longrightarrow>
     \<not> allowed (Status t) next \<and> errors_Is e ErrInvalidStateTransition"
proof -
  assume e: "TransitionTo next now t = Inl e"
  then have "\<not> allowed (Status t) next"
    by (metis TransitionTo_Inr_iff sum.distinct(1))
  moreover from e have "root_cause e = ErrInvalidStateTransition"
    by (auto simp: TransitionTo_def dest: TransitionTo_loop_Inl)
  ultimately show ?thesis by (simp add: errors_Is_sentinel)
qed

text \<open>A callback that transitions and then sets fields.\<close>

lemma TransitionTo_then_Inr_iff:
  "(case TransitionTo next now t of Inl err \<Rightarrow> Inl err | Inr s \<Rightarrow> Inr (f s)) = Inr t' \<longleftrightarrow>
     allowed (Status t) next \<and> t' = f (t\<lparr>Status := next, UpdatedAt := now\<rparr>)"
proof (cases "TransitionTo next now t")
  case (Inl e)
  with TransitionTo_Inl [OF Inl] show ?thesis by simp
next
  case (Inr s)
  then have "allowed (Status t) next" "s = t\<lparr>Status := next, UpdatedAt := now\<rparr>"
    by (simp_all add: TransitionTo_Inr_iff)
  with Inr show ?thesis by auto
qed

end
