(* ===== verification/World.thy ===== *)
theory World
  imports Database Domain_Task
begin

text \<open>
  The environment a process of the system runs in: the database, the Redis server (a state of
  any type, the broker's commands are parameters), the readings the clocks will give, the
  identifiers the UUID generator will give, the outcome of each call to the database driver,
  the rows other transactions hold locked, the order in which a query returns rows its
  \<^verbatim>\<open>ORDER BY\<close> does not tell apart, the process's metrics, and the functions of libraries outside
  the repository that the code applies to values.

  Readings, identifiers, outcomes and orders of ties are infinite sequences: an operation takes
  the first and leaves the rest. Nothing relates two readings, so every theorem holds for clocks
  that jump and differ between hosts, and every pattern of driver failures is covered. A call
  that fails may nevertheless have been carried out by the server: when the connection is lost or
  the context ends after a \<^verbatim>\<open>COMMIT\<close> was sent, the client gets an error and does not know. Such an
  outcome is \<open>Unconfirmed\<close>.
\<close>

text \<open>
  The \<^verbatim>\<open>%q\<close> verb of \<^verbatim>\<open>fmt\<close> (only error messages use it), and \<^verbatim>\<open>Parse\<close> and \<^verbatim>\<open>String\<close> of
  \<^verbatim>\<open>github.com/google/uuid\<close>.
\<close>

record library =
  fmt_q :: "string \<Rightarrow> string"
  uuid_Parse :: "string \<Rightarrow> go_error + uuid"
  uuid_String :: "uuid \<Rightarrow> string"

text \<open>The state behind \<^verbatim>\<open>prom.Metrics\<close>: counters, the observations of the two histograms, a gauge.\<close>

record prom_metrics =
  tasksEnqueued :: nat
  tasksCompleted :: nat
  tasksFailed :: nat
  tasksRetried :: nat
  tasksDispatched :: nat
  taskDuration :: "duration list"
  enqueueLatency :: "duration list"
  tasksPending :: int

datatype fault = Failed go_error | Unconfirmed go_error

primrec fault_error :: "fault \<Rightarrow> go_error" where
  "fault_error (Failed e) = e"
| "fault_error (Unconfirmed e) = e"

record 'r world =
  lib :: library
  db :: database
  rdb :: 'r
  clock :: "nat \<Rightarrow> gotime"
  new_ids :: "nat \<Rightarrow> uuid"
  faults :: "nat \<Rightarrow> fault option"
  locked :: "uuid \<Rightarrow> bool"
  ties :: "nat \<Rightarrow> uuid \<Rightarrow> nat"
  prom :: prom_metrics

definition shift :: "(nat \<Rightarrow> 'a) \<Rightarrow> nat \<Rightarrow> 'a" where
  "shift f n = f (Suc n)"

text \<open>\<^verbatim>\<open>time.Now().UTC()\<close>, and \<^verbatim>\<open>NOW()\<close> of the server as a \<^verbatim>\<open>TIMESTAMPTZ\<close>.\<close>

definition time_Now :: "('e, gotime, 'r world) op" where
  "time_Now w = (Inr (clock w 0), w\<lparr>clock := shift (clock w)\<rparr>)"

definition sql_NOW :: "('e, gotime, 'r world) op" where
  "sql_NOW w = (Inr (timestamptz (clock w 0)), w\<lparr>clock := shift (clock w)\<rparr>)"

text \<open>One call to the driver: it fails with an error of the environment, or goes through.\<close>

definition driver :: "(go_error, unit, 'r world) op" where
  "driver w = (case faults w 0 of Some f \<Rightarrow> Inl (fault_error f) | None \<Rightarrow> Inr (), w\<lparr>faults := shift (faults w)\<rparr>)"

text \<open>
  A call with which the server makes \<open>d\<close> the contents of the database: it goes through, it fails
  before the server has done so, or it fails although the server has.
\<close>

definition install :: "'a \<Rightarrow> database \<Rightarrow> (go_error, 'a, 'r world) op" where
  "install a d w =
     (let w1 = w\<lparr>faults := shift (faults w)\<rparr> in
      case faults w 0 of
        None \<Rightarrow> (Inr a, w1\<lparr>db := d\<rparr>)
      | Some (Failed e) \<Rightarrow> (Inl e, w1)
      | Some (Unconfirmed e) \<Rightarrow> (Inl e, w1\<lparr>db := d\<rparr>))"

text \<open>The order in which the next query returns rows that its \<^verbatim>\<open>ORDER BY\<close> leaves tied.\<close>

definition next_ties :: "('e, uuid \<Rightarrow> nat, 'r world) op" where
  "next_ties w = (Inr (ties w 0), w\<lparr>ties := shift (ties w)\<rparr>)"

text \<open>An operation that reads the libraries, and one that reads the locks of others.\<close>

definition with_lib :: "(library \<Rightarrow> ('e, 'a, 'r world) op) \<Rightarrow> ('e, 'a, 'r world) op" where
  "with_lib f w = f (lib w) w"

definition with_locked :: "((uuid \<Rightarrow> bool) \<Rightarrow> ('e, 'a, 'r world) op) \<Rightarrow> ('e, 'a, 'r world) op" where
  "with_locked f w = f (locked w) w"

text \<open>Documented behaviour of the UUID library: \<^verbatim>\<open>Parse\<close> reads back what \<^verbatim>\<open>String\<close> writes.\<close>

definition uuid_ok :: "library \<Rightarrow> bool" where
  "uuid_ok l \<longleftrightarrow> (\<forall>u. uuid_Parse l (uuid_String l u) = Inr u)"

declare with_lib_def [op_defs] with_locked_def [op_defs]

lemma keeps_time_Now [simp, intro]:
  "keeps db time_Now" "keeps lib time_Now" "keeps rdb time_Now" "keeps prom time_Now"
  "keeps locked time_Now"
  by (simp_all add: keeps_def time_Now_def)

lemma keeps_sql_NOW [simp, intro]:
  "keeps db sql_NOW" "keeps lib sql_NOW" "keeps rdb sql_NOW" "keeps prom sql_NOW"
  "keeps locked sql_NOW"
  by (simp_all add: keeps_def sql_NOW_def)

lemma keeps_driver [simp, intro]:
  "keeps db driver" "keeps lib driver" "keeps rdb driver" "keeps prom driver" "keeps clock driver"
  "keeps locked driver"
  by (simp_all add: keeps_def driver_def)

lemma keeps_install [simp, intro]:
  "keeps lib (install a d)" "keeps rdb (install a d)" "keeps prom (install a d)" "keeps clock (install a d)"
  by (simp_all add: keeps_def install_def Let_def split: option.splits fault.splits)

lemma keeps_next_ties [simp, intro]:
  "keeps db next_ties" "keeps lib next_ties" "keeps rdb next_ties" "keeps prom next_ties" "keeps clock next_ties"
  "keeps locked next_ties" "keeps faults next_ties"
  by (simp_all add: keeps_def next_ties_def)

lemma keeps_with_lib [intro]: "(\<And>l. keeps f (m l)) \<Longrightarrow> keeps f (with_lib m)"
  by (simp add: keeps_def with_lib_def)

lemma keeps_with_locked [intro]: "(\<And>l. keeps f (m l)) \<Longrightarrow> keeps f (with_locked m)"
  by (simp add: keeps_def with_locked_def)

lemma time_Now_eq [simp]:
  "time_Now w = (r, w') \<longleftrightarrow> r = Inr (clock w 0) \<and> w' = w\<lparr>clock := shift (clock w)\<rparr>"
  by (auto simp: time_Now_def)

lemma sql_NOW_eq [simp]:
  "sql_NOW w = (r, w') \<longleftrightarrow> r = Inr (timestamptz (clock w 0)) \<and> w' = w\<lparr>clock := shift (clock w)\<rparr>"
  by (auto simp: sql_NOW_def)

lemma driver_Inr:
  "driver w = (Inr u, w') \<longleftrightarrow> faults w 0 = None \<and> w' = w\<lparr>faults := shift (faults w)\<rparr>"
  by (auto simp: driver_def split: option.splits)

lemma driver_Inl:
  "driver w = (Inl e, w') \<longleftrightarrow>
     (\<exists>f. faults w 0 = Some f \<and> e = fault_error f) \<and> w' = w\<lparr>faults := shift (faults w)\<rparr>"
  by (auto simp: driver_def split: option.splits)

lemma next_ties_eq [simp]:
  "next_ties w = (r, w') \<longleftrightarrow> r = Inr (ties w 0) \<and> w' = w\<lparr>ties := shift (ties w)\<rparr>"
  by (auto simp: next_ties_def)

lemma install_Inr:
  "install a d w = (Inr b, w') \<longleftrightarrow> faults w 0 = None \<and> b = a \<and> w' = w\<lparr>faults := shift (faults w), db := d\<rparr>"
  by (auto simp: install_def Let_def split: option.splits fault.splits)

lemma install_confirmed:
  "faults w = (\<lambda>_. None) \<Longrightarrow> install a d w = (Inr a, w\<lparr>db := d\<rparr>)"
  by (cases w) (auto simp: install_def Let_def shift_def)

lemma install_Inl:
  "install a d w = (Inl e, w') \<longleftrightarrow>
     faults w 0 = Some (Failed e) \<and> w' = w\<lparr>faults := shift (faults w)\<rparr> \<or>
     faults w 0 = Some (Unconfirmed e) \<and> w' = w\<lparr>faults := shift (faults w), db := d\<rparr>"
  by (auto simp: install_def Let_def split: option.splits fault.splits)

subsection \<open>The same world with every unconfirmed call confirmed\<close>

definition confirmed :: "'r world \<Rightarrow> 'r world" where
  "confirmed w = w\<lparr>faults := (\<lambda>n. case faults w n of Some (Unconfirmed e) \<Rightarrow> None | f \<Rightarrow> f)\<rparr>"

text \<open>An operation that succeeds does the same in the confirmed world.\<close>

definition mirrors :: "('e, 'a, 'r world) op \<Rightarrow> bool" where
  "mirrors m \<longleftrightarrow> (\<forall>w a w'. m w = (Inr a, w') \<longrightarrow> m (confirmed w) = (Inr a, confirmed w'))"

lemma confirmed_simps [simp]:
  "db (confirmed w) = db w" "lib (confirmed w) = lib w" "rdb (confirmed w) = rdb w" "clock (confirmed w) = clock w"
  "locked (confirmed w) = locked w" "prom (confirmed w) = prom w" "ties (confirmed w) = ties w"
  "new_ids (confirmed w) = new_ids w"
  "confirmed (w\<lparr>clock := c\<rparr>) = (confirmed w)\<lparr>clock := c\<rparr>" "confirmed (w\<lparr>db := d\<rparr>) = (confirmed w)\<lparr>db := d\<rparr>"
  "confirmed (w\<lparr>ties := t\<rparr>) = (confirmed w)\<lparr>ties := t\<rparr>"
  by (simp_all add: confirmed_def)

lemma confirmed_shift:
  "confirmed (w\<lparr>faults := shift (faults w)\<rparr>) = (confirmed w)\<lparr>faults := shift (faults (confirmed w))\<rparr>"
  by (simp add: confirmed_def shift_def [abs_def])

lemma confirmed_fault: "faults w 0 = None \<Longrightarrow> faults (confirmed w) 0 = None"
  by (simp add: confirmed_def)

lemma confirmed_id: "(\<And>n e. faults w n \<noteq> Some (Unconfirmed e)) \<Longrightarrow> confirmed w = w"
proof -
  assume "\<And>n e. faults w n \<noteq> Some (Unconfirmed e)"
  then have "(\<lambda>n. case faults w n of Some (Unconfirmed e) \<Rightarrow> None | f \<Rightarrow> f) = faults w"
    by (intro ext) (auto split: option.splits fault.splits)
  then show ?thesis by (simp add: confirmed_def)
qed

lemma mirrorsI: "(\<And>w a w'. m w = (Inr a, w') \<Longrightarrow> m (confirmed w) = (Inr a, confirmed w')) \<Longrightarrow> mirrors m"
  by (simp add: mirrors_def)

lemma mirrorsD: "mirrors m \<Longrightarrow> m w = (Inr a, w') \<Longrightarrow> m (confirmed w) = (Inr a, confirmed w')"
  by (simp add: mirrors_def)

lemma mirrors_basic [simp, intro]:
  "mirrors (ret a)" "mirrors (fail e)" "mirrors (lift_sum r)" "mirrors time_Now" "mirrors sql_NOW" "mirrors driver"
  by (simp_all add: mirrors_def driver_Inr confirmed_fault confirmed_shift)

lemma mirrors_onError [simp]: "mirrors (onError g m) \<longleftrightarrow> mirrors m"
  by (simp add: mirrors_def)

lemma mirrors_andThen [intro]: "mirrors m \<Longrightarrow> (\<And>a. mirrors (k a)) \<Longrightarrow> mirrors (andThen m k)"
  by (rule mirrorsI) (auto simp: andThen_Inr_iff dest!: mirrorsD)

lemma mirrors_with_lib [intro]: "(\<And>l. mirrors (m l)) \<Longrightarrow> mirrors (with_lib m)"
  by (simp add: mirrors_def with_lib_def)

lemma mirrors_with_locked [intro]: "(\<And>l. mirrors (m l)) \<Longrightarrow> mirrors (with_locked m)"
  by (simp add: mirrors_def with_locked_def)

lemma mirrors_mapM [intro]: "(\<And>x. mirrors (g x)) \<Longrightarrow> mirrors (mapM g xs)"
proof (induction xs)
  case (Cons x xs)
  have "mapM g (x # xs) = andThen (g x) (\<lambda>y. andThen (mapM g xs) (\<lambda>ys. ret (y # ys)))" by (rule ext) simp
  with Cons show ?case by (auto intro!: mirrors_andThen)
qed (simp add: mirrors_def)

lemma mirrors_foldM [intro]: "(\<And>x s. mirrors (g x s)) \<Longrightarrow> mirrors (foldM g xs s)"
proof (induction xs arbitrary: s)
  case (Cons x xs)
  have "foldM g (x # xs) s = andThen (g x s) (foldM g xs)" by (rule ext) simp
  with Cons show ?case by (auto intro!: mirrors_andThen)
qed (simp add: mirrors_def)

end
