(* ===== verification/Ports.thy ===== *)
theory Ports
  imports World
begin

text \<open>
  The ports of the use cases (\<^verbatim>\<open>src/internal/usecase/ports.go\<close>): an interface is the record of its
  methods, an operation on the environment each. The \<^verbatim>\<open>mutate\<close> callback of \<^verbatim>\<open>UpdateTask\<close> reads
  \<^verbatim>\<open>time.Now()\<close> through \<^verbatim>\<open>Task.TransitionTo\<close> and nothing else, so it is a function of that reading
  and of the task; \<^verbatim>\<open>UpdateTask\<close> returns the task \<^verbatim>\<open>mutate\<close> left, the one the callers' closures
  capture by pointer. The methods' contexts and the loggers have no state here.
\<close>

record ListFilter =
  f_Status :: Status
  f_Type :: string
  f_Page :: go_int
  f_PageSize :: go_int

record Delivery =
  d_ID :: string
  d_TaskID :: TaskID

type_synonym mutation = "gotime \<Rightarrow> Task \<Rightarrow> go_error + Task"

record 'r TaskRepository =
  repo_Create :: "Task \<Rightarrow> (go_error, unit, 'r world) op"
  repo_GetByID :: "TaskID \<Rightarrow> (go_error, Task, 'r world) op"
  repo_FindByIdempotencyKey :: "string \<Rightarrow> (go_error, Task, 'r world) op"
  repo_UpdateTask :: "TaskID \<Rightarrow> mutation \<Rightarrow> (go_error, Task, 'r world) op"
  repo_Heartbeat :: "TaskID \<Rightarrow> string \<Rightarrow> (go_error, unit, 'r world) op"
  repo_PickAndMarkRunning :: "go_int \<Rightarrow> (go_error, Task list, 'r world) op"
  repo_ResetStuckRunning :: "duration \<Rightarrow> (go_error, nat, 'r world) op"
  repo_List :: "ListFilter \<Rightarrow> (go_error, Task list \<times> nat, 'r world) op"
  repo_CleanupExpired :: "duration \<Rightarrow> (go_error, nat, 'r world) op"

text \<open>The publishing half of \<^verbatim>\<open>Broker\<close>; \<^verbatim>\<open>Subscribe\<close> yields the sequence of deliveries a worker processes.\<close>

record 'r Broker =
  broker_Publish :: "string \<Rightarrow> TaskID \<Rightarrow> (go_error, unit, 'r world) op"
  broker_Ack :: "string \<Rightarrow> string \<Rightarrow> string \<Rightarrow> (go_error, unit, 'r world) op"

type_synonym 'r Clock = "'r world \<Rightarrow> gotime \<times> 'r world"
type_synonym 'r IDGenerator = "'r world \<Rightarrow> TaskID \<times> 'r world"

record 'r Metrics =
  m_TaskEnqueued :: "duration \<Rightarrow> 'r world \<Rightarrow> 'r world"
  m_TaskCompleted :: "duration \<Rightarrow> 'r world \<Rightarrow> 'r world"
  m_TaskFailed :: "'r world \<Rightarrow> 'r world"
  m_TaskRetried :: "'r world \<Rightarrow> 'r world"
  m_TaskDispatched :: "'r world \<Rightarrow> 'r world"
  m_SetPending :: "go_int \<Rightarrow> 'r world \<Rightarrow> 'r world"

definition NopMetrics :: "'r Metrics" where
  "NopMetrics =
     \<lparr>m_TaskEnqueued = (\<lambda>_ w. w), m_TaskCompleted = (\<lambda>_ w. w), m_TaskFailed = (\<lambda>w. w),
      m_TaskRetried = (\<lambda>w. w), m_TaskDispatched = (\<lambda>w. w), m_SetPending = (\<lambda>_ w. w)\<rparr>"

definition SystemClock_Now :: "'r Clock" where
  "SystemClock_Now w = (clock w 0, w\<lparr>clock := shift (clock w)\<rparr>)"

end
