(* ===== verification/Postgres_Repo.thy ===== *)
theory Postgres_Repo
  imports Ports
begin

text \<open>
  The PostgreSQL implementation of \<^verbatim>\<open>usecase.TaskRepository\<close>
  (\<^verbatim>\<open>src/internal/adapter/repo/postgres/repo.go\<close>), method by method. A transaction takes a copy
  of the database at \<^verbatim>\<open>Begin\<close>, its statements work on the copy, \<^verbatim>\<open>Commit\<close> installs it: leaving
  early (the deferred \<^verbatim>\<open>Rollback\<close>) drops it. Every call to the driver can fail
  (\<open>driver\<close>), with the wrapping the code gives the error at that place; a \<^verbatim>\<open>Commit\<close> that fails, or
  a statement on the pool, may or may not have been applied (\<open>install\<close>). A method is one
  atomic step: the row locks it takes make concurrent transactions on the same rows wait, or
  pass over them where the statement says \<^verbatim>\<open>SKIP LOCKED\<close>.
\<close>

subsection \<open>Helpers\<close>

definition toUUID :: "TaskID \<Rightarrow> (go_error, uuid, 'r world) op" where
  "toUUID tid = with_lib (\<lambda>l. case uuid_Parse l tid of
       Inl err \<Rightarrow> fail (errorf (''invalid task id '' @ fmt_q l tid @ '': '') err)
     | Inr u \<Rightarrow> ret u)"

definition fromUUID :: "library \<Rightarrow> uuid \<Rightarrow> TaskID" where
  "fromUUID l u = uuid_String l u"

definition nullText :: "string \<Rightarrow> string option" where
  "nullText s = (if s = '''' then None else Some s)"

definition text_or_empty :: "string option \<Rightarrow> string" where
  "text_or_empty x = (case x of None \<Rightarrow> '''' | Some s \<Rightarrow> s)"

definition task_of_row :: "library \<Rightarrow> task_row \<Rightarrow> Task" where
  "task_of_row l r =
     \<lparr>ID = fromUUID l (r_id r), Type = r_type r, Payload = r_payload r,
      Priority = ucast (r_priority r), Status = r_status r, Dependencies = [],
      ScheduledAt = r_scheduled_at r, CreatedAt = r_created_at r, UpdatedAt = r_updated_at r,
      AttemptCount = int_of_int32 (r_attempt_count r), RetryLimit = int_of_int32 (r_retry_limit r),
      LastError = text_or_empty (r_last_error r), Result = r_result r,
      WorkerID = text_or_empty (r_worker_id r), IdempotencyKey = text_or_empty (r_idempotency_key r)\<rparr>"

text \<open>\<^verbatim>\<open>row.Scan\<close>: the driver may fail, no row is \<^verbatim>\<open>pgx.ErrNoRows\<close>, which becomes \<^verbatim>\<open>ErrNotFound\<close>.\<close>

definition scanTask :: "task_row option \<Rightarrow> (go_error, Task, 'r world) op" where
  "scanTask row = andThen driver (\<lambda>_. case row of
       None \<Rightarrow> fail ErrNotFound
     | Some r \<Rightarrow> with_lib (\<lambda>l. ret (task_of_row l r)))"

definition tx_Begin :: "(go_error, database, 'r world) op" where
  "tx_Begin = andThen driver (\<lambda>_ w. (Inr (db w), w))"

definition tx_Exec :: "(database \<Rightarrow> go_error + 'a) \<Rightarrow> database \<Rightarrow> (go_error, 'a, 'r world) op" where
  "tx_Exec stmt d = andThen driver (\<lambda>_. lift_sum (stmt d))"

definition tx_Commit :: "database \<Rightarrow> (go_error, unit, 'r world) op" where
  "tx_Commit d = install () d"

text \<open>A statement on the pool is its own transaction.\<close>

definition pool_Exec :: "(database \<Rightarrow> nat \<times> database) \<Rightarrow> (go_error, nat, 'r world) op" where
  "pool_Exec stmt w = install (fst (stmt (db w))) (snd (stmt (db w))) w"

definition loadDeps :: "uuid \<Rightarrow> database \<Rightarrow> (go_error, TaskID list, 'r world) op" where
  "loadDeps u d =
     andThen driver (\<lambda>_.
     andThen (mapM (\<lambda>dep. andThen driver (\<lambda>_. with_lib (\<lambda>l. ret (fromUUID l dep)))) (select_deps u d)) (\<lambda>deps.
     andThen driver (\<lambda>_. ret deps)))"

definition insertDeps :: "uuid \<Rightarrow> TaskID list \<Rightarrow> database \<Rightarrow> (go_error, database, 'r world) op" where
  "insertDeps u deps =
     foldM (\<lambda>dep d. andThen (toUUID dep) (\<lambda>depUUID. tx_Exec (insert_dep u depUUID) d)) deps"

subsection \<open>Create, GetByID, FindByIdempotencyKey\<close>

definition row_of_task :: "uuid \<Rightarrow> Task \<Rightarrow> task_row" where
  "row_of_task u t =
     \<lparr>r_id = u, r_type = Type t, r_payload = Payload t, r_priority = ucast (Priority t),
      r_status = Status t, r_attempt_count = int32_of_int (AttemptCount t),
      r_retry_limit = int32_of_int (RetryLimit t), r_scheduled_at = timestamptz (ScheduledAt t),
      r_created_at = timestamptz (CreatedAt t), r_updated_at = timestamptz (UpdatedAt t),
      r_worker_id = nullText (WorkerID t), r_last_error = nullText (LastError t),
      r_result = Result t, r_idempotency_key = nullText (IdempotencyKey t)\<rparr>"

definition Create :: "Task \<Rightarrow> (go_error, unit, 'r world) op" where
  "Create t =
     andThen (toUUID (ID t)) (\<lambda>uid.
     andThen (onError (errorf ''postgres: create: begin: '') tx_Begin) (\<lambda>d0.
     andThen (onError (errorf ''postgres: create: insert task: '')
                (tx_Exec (insert_task (row_of_task uid t)) d0)) (\<lambda>d1.
     andThen (onError (errorf ''postgres: create: insert deps: '')
                (insertDeps uid (Dependencies t) d1)) (\<lambda>d2.
     onError (errorf ''postgres: create: commit: '') (tx_Commit d2)))))"

definition GetByID :: "TaskID \<Rightarrow> (go_error, Task, 'r world) op" where
  "GetByID tid =
     andThen (toUUID tid) (\<lambda>uid.
     andThen (onError (errorf ''postgres: get: begin: '') tx_Begin) (\<lambda>d.
     andThen (onError (errorf ''postgres: get: '') (scanTask (select_task uid d))) (\<lambda>t.
     andThen (onError (errorf ''postgres: get: deps: '') (loadDeps uid d)) (\<lambda>deps.
     andThen (tx_Commit d) (\<lambda>_. ret (t\<lparr>Dependencies := deps\<rparr>))))))"

definition FindByIdempotencyKey :: "string \<Rightarrow> (go_error, Task, 'r world) op" where
  "FindByIdempotencyKey key =
     (\<lambda>w. onError (errorf ''postgres: find-by-key: '') (scanTask (select_by_key key (db w))) w)"

subsection \<open>UpdateTask\<close>

definition set_columns :: "Task \<Rightarrow> task_row \<Rightarrow> task_row" where
  "set_columns t r =
     r\<lparr>r_status := Status t, r_attempt_count := int32_of_int (AttemptCount t),
       r_retry_limit := int32_of_int (RetryLimit t), r_scheduled_at := timestamptz (ScheduledAt t),
       r_updated_at := timestamptz (UpdatedAt t), r_worker_id := nullText (WorkerID t),
       r_last_error := nullText (LastError t), r_result := Result t\<rparr>"

definition update_task :: "uuid \<Rightarrow> Task \<Rightarrow> database \<Rightarrow> database" where
  "update_task u t d = snd (update_where (\<lambda>r. r_id r = u) (set_columns t) d)"

definition UpdateTask :: "TaskID \<Rightarrow> mutation \<Rightarrow> (go_error, Task, 'r world) op" where
  "UpdateTask tid mutate =
     andThen (toUUID tid) (\<lambda>uid.
     andThen (onError (errorf ''postgres: update: begin: '') tx_Begin) (\<lambda>d.
     andThen (onError (errorf ''postgres: update: '') (scanTask (select_task uid d))) (\<lambda>t0.
     andThen (onError (errorf ''postgres: update: deps: '') (loadDeps uid d)) (\<lambda>deps.
     andThen time_Now (\<lambda>now.
     andThen (lift_sum (mutate now (t0\<lparr>Dependencies := deps\<rparr>))) (\<lambda>t.
     andThen (onError (errorf ''postgres: update: exec: '')
                (tx_Exec (\<lambda>d. Inr (update_task uid t d)) d)) (\<lambda>d'.
     andThen (tx_Commit d') (\<lambda>_. ret t))))))))"

subsection \<open>The scheduler's queries\<close>

text \<open>
  The query both \<^verbatim>\<open>LockNextPending\<close> and \<^verbatim>\<open>PickAndMarkRunning\<close> open with, the scan of its rows
  and the loading of the dependencies, with the prefix of the caller's error messages. An
  identifier that does not parse leaves the zero UUID, as \<^verbatim>\<open>uid, _ := toUUID(t.ID)\<close> does.
\<close>

definition queryReady :: "string \<Rightarrow> go_int \<Rightarrow> database \<Rightarrow> (go_error, Task list, 'r world) op" where
  "queryReady p limit d =
     andThen sql_NOW (\<lambda>now.
     andThen (onError (errorf (p @ ''query: ''))
                (with_locked (\<lambda>lk. tx_Exec (select_ready lk now (int32_of_int limit)) d))) (\<lambda>rows.
     andThen (onError (errorf (p @ ''scan: '')) (mapM (\<lambda>r. scanTask (Some r)) rows)) (\<lambda>ts.
     andThen (onError (errorf (p @ ''rows: '')) driver) (\<lambda>_.
     mapM (\<lambda>t. with_lib (\<lambda>l.
       let uid = (case uuid_Parse l (ID t) of Inl _ \<Rightarrow> 0 | Inr u \<Rightarrow> u) in
       andThen (onError (errorf (p @ ''deps: '')) (loadDeps uid d)) (\<lambda>deps.
       ret (t\<lparr>Dependencies := deps\<rparr>)))) ts))))"

definition LockNextPending :: "go_int \<Rightarrow> (go_error, Task list, 'r world) op" where
  "LockNextPending limit =
     andThen (onError (errorf ''postgres: lock-next: begin: '') tx_Begin) (\<lambda>d.
     andThen (queryReady ''postgres: lock-next: '' limit d) (\<lambda>ts.
     andThen (tx_Commit d) (\<lambda>_. ret ts)))"

definition mark_running :: "uuid \<Rightarrow> gotime \<Rightarrow> database \<Rightarrow> database" where
  "mark_running u now d =
     snd (update_where (\<lambda>r. r_id r = u)
            (\<lambda>r. r\<lparr>r_status := ''running'', r_updated_at := timestamptz now\<rparr>) d)"

definition PickAndMarkRunning :: "go_int \<Rightarrow> (go_error, Task list, 'r world) op" where
  "PickAndMarkRunning limit =
     andThen (onError (errorf ''postgres: pick-and-mark: begin: '') tx_Begin) (\<lambda>d.
     andThen (queryReady ''postgres: pick-and-mark: '' limit d) (\<lambda>ts.
     andThen time_Now (\<lambda>now.
     andThen (foldM (\<lambda>t d.
        andThen (toUUID (ID t)) (\<lambda>uid.
        onError (errorf (''postgres: pick-and-mark: update '' @ ID t @ '': ''))
          (tx_Exec (\<lambda>d. Inr (mark_running uid now d)) d))) ts d) (\<lambda>d'.
     andThen (tx_Commit d') (\<lambda>_.
     ret (map (\<lambda>t. t\<lparr>Status := StatusRunning, UpdatedAt := now\<rparr>) ts))))))"

subsection \<open>List\<close>

text \<open>\<^verbatim>\<open>buildListWhere\<close>: the clauses as column and argument, in the order of their placeholders.\<close>

datatype list_column = Col_status | Col_type

definition buildListWhere :: "ListFilter \<Rightarrow> (list_column \<times> string) list" where
  "buildListWhere f =
     (if f_Status f \<noteq> '''' then [(Col_status, f_Status f)] else []) @
     (if f_Type f \<noteq> '''' then [(Col_type, f_Type f)] else [])"

fun column_value :: "list_column \<Rightarrow> task_row \<Rightarrow> string" where
  "column_value Col_status r = r_status r"
| "column_value Col_type r = r_type r"

definition row_matches :: "(list_column \<times> string) list \<Rightarrow> task_row \<Rightarrow> bool" where
  "row_matches cs r \<longleftrightarrow> (\<forall>c \<in> set cs. column_value (fst c) r = snd c)"

text \<open>
  \<^verbatim>\<open>ORDER BY created_at DESC LIMIT OFFSET\<close>. Rows with the same \<^verbatim>\<open>created_at\<close> come in an order the
  server chooses for each query: \<open>tie\<close> ranks them.
\<close>

definition select_page :: "(uuid \<Rightarrow> nat) \<Rightarrow> (list_column \<times> string) list \<Rightarrow> int32 \<Rightarrow> int32 \<Rightarrow> database \<Rightarrow>
    go_error + task_row list" where
  "select_page tie cs limit offset d =
     (if sint limit < 0 \<or> sint offset < 0 then Inl invalid_row_count
      else Inr (take (nat (sint limit)) (drop (nat (sint offset))
             (sort_key (\<lambda>r. - r_created_at r)
               (sort_key (\<lambda>r. tie (r_id r)) (filter (row_matches cs) (tasks d)))))))"

definition normalise_filter :: "ListFilter \<Rightarrow> ListFilter" where
  "normalise_filter f =
     (let f1 = (if sint (f_PageSize f) \<le> 0 then f\<lparr>f_PageSize := 50\<rparr> else f) in
      if sint (f_Page f1) \<le> 0 then f1\<lparr>f_Page := 1\<rparr> else f1)"

definition List_tasks :: "ListFilter \<Rightarrow> (go_error, Task list \<times> nat, 'r world) op" where
  "List_tasks f0 =
     (let f = normalise_filter f0;
          offset = (f_Page f - 1) * f_PageSize f;
          cs = buildListWhere f in
      andThen (onError (errorf ''postgres: list: count: '')
                 (andThen driver (\<lambda>_ w. (Inr (length (filter (row_matches cs) (tasks (db w)))), w)))) (\<lambda>total.
      andThen (onError (errorf ''postgres: list: query: '')
                 (andThen next_ties (\<lambda>tie w. tx_Exec (select_page tie cs (int32_of_int (f_PageSize f))
                    (int32_of_int offset)) (db w) w))) (\<lambda>rows.
      andThen (onError (errorf ''postgres: list: scan: '') (mapM (\<lambda>r. scanTask (Some r)) rows)) (\<lambda>ts.
      andThen (onError (errorf ''postgres: list: rows: '') driver) (\<lambda>_.
      ret (ts, total))))))"

subsection \<open>Heartbeat, ResetStuckRunning, CleanupExpired\<close>

definition Heartbeat :: "TaskID \<Rightarrow> string \<Rightarrow> (go_error, unit, 'r world) op" where
  "Heartbeat tid workerID =
     andThen (toUUID tid) (\<lambda>uid.
     andThen (onError (errorf ''postgres: heartbeat: '')
       (andThen sql_NOW (\<lambda>now.
        pool_Exec (update_where (\<lambda>r. r_id r = uid \<and> r_status r = ''running'')
          (\<lambda>r. r\<lparr>r_updated_at := now, r_worker_id := Some workerID\<rparr>))))) (\<lambda>n.
     if n = 0 then fail (errorf ''postgres: heartbeat: '' ErrNotFound) else ret ()))"

definition stuck :: "gotime \<Rightarrow> task_row \<Rightarrow> bool" where
  "stuck threshold r \<longleftrightarrow> r_status r = ''running'' \<and> r_updated_at r < threshold"

definition ResetStuckRunning :: "duration \<Rightarrow> (go_error, nat, 'r world) op" where
  "ResetStuckRunning timeout =
     andThen time_Now (\<lambda>now.
     let threshold = time_Add now (- timeout) in
     onError (errorf ''postgres: reset-stuck: '')
       (andThen sql_NOW (\<lambda>dbnow.
        pool_Exec (update_where (stuck (timestamptz threshold))
          (\<lambda>r. r\<lparr>r_status := ''pending'', r_worker_id := None, r_updated_at := dbnow\<rparr>)))))"

definition expired :: "gotime \<Rightarrow> task_row \<Rightarrow> bool" where
  "expired threshold r \<longleftrightarrow>
     (r_status r = ''completed'' \<or> r_status r = ''cancelled'') \<and> r_updated_at r < threshold"

definition CleanupExpired :: "duration \<Rightarrow> (go_error, nat, 'r world) op" where
  "CleanupExpired ttl =
     andThen time_Now (\<lambda>now.
     let threshold = time_Add now (- ttl) in
     onError (errorf ''postgres: cleanup: '') (pool_Exec (delete_where (expired (timestamptz threshold)))))"

definition postgres_Repo :: "'r TaskRepository" where
  "postgres_Repo =
     \<lparr>repo_Create = Create, repo_GetByID = GetByID, repo_FindByIdempotencyKey = FindByIdempotencyKey,
      repo_UpdateTask = UpdateTask, repo_Heartbeat = Heartbeat,
      repo_PickAndMarkRunning = PickAndMarkRunning, repo_ResetStuckRunning = ResetStuckRunning,
      repo_List = List_tasks, repo_CleanupExpired = CleanupExpired\<rparr>"

subsection \<open>What the building blocks keep\<close>

lemma keeps_toUUID [simp, intro]: "keeps f (toUUID tid)"
  by (auto simp: keeps_def toUUID_def with_lib_def fail_def ret_def split: sum.splits)

lemma keeps_scanTask [simp, intro]: "keeps f driver \<Longrightarrow> keeps f (scanTask row)"
  by (auto simp: scanTask_def intro!: keeps_andThen keeps_with_lib split: option.splits)

lemma keeps_tx_Begin [simp, intro]: "keeps f driver \<Longrightarrow> keeps f tx_Begin"
  unfolding tx_Begin_def by (rule keeps_andThen) (simp_all add: keeps_def)

lemma keeps_tx_Exec [simp, intro]: "keeps f driver \<Longrightarrow> keeps f (tx_Exec stmt d)"
  by (auto simp: tx_Exec_def)

lemma keeps_loadDeps [simp, intro]: "keeps f driver \<Longrightarrow> keeps f (loadDeps u d)"
  by (auto simp: loadDeps_def intro!: keeps_andThen keeps_mapM keeps_with_lib)

lemma keeps_insertDeps [simp, intro]: "keeps f driver \<Longrightarrow> keeps f (insertDeps u deps d)"
  by (auto simp: insertDeps_def intro!: keeps_andThen keeps_foldM)

lemma keeps_queryReady [simp, intro]:
  "keeps f driver \<Longrightarrow> keeps f (sql_NOW :: (go_error, gotime, 'r world) op) \<Longrightarrow>
     keeps f (queryReady p limit d)"
  unfolding queryReady_def Let_def
  by (intro keeps_andThen keeps_mapM keeps_with_lib keeps_with_locked) auto

lemma keeps_tx_Commit [simp, intro]:
  "keeps lib (tx_Commit d)" "keeps rdb (tx_Commit d)" "keeps prom (tx_Commit d)" "keeps clock (tx_Commit d)"
  unfolding tx_Commit_def by simp_all

lemma keeps_pool_Exec [simp, intro]:
  "keeps lib (pool_Exec s)" "keeps rdb (pool_Exec s)" "keeps prom (pool_Exec s)"
  by (simp_all add: keeps_def pool_Exec_def keeps_install [unfolded keeps_def, rule_format])

lemma mirrors_blocks [simp, intro]:
  "mirrors (toUUID tid)" "mirrors (scanTask row)" "mirrors (tx_Begin :: (go_error, database, 'r world) op)"
  "mirrors (tx_Exec stmt d)" "mirrors (loadDeps u d)"
proof -
  show "mirrors (toUUID tid)" unfolding toUUID_def by (rule mirrors_with_lib) (simp split: sum.split)
  show "mirrors (scanTask row)" unfolding scanTask_def
    by (intro mirrors_andThen mirrors_basic) (auto intro: mirrors_with_lib split: option.split)
  have "mirrors (\<lambda>w :: 'r world. (Inr (db w), w))" by (simp add: mirrors_def)
  then show "mirrors (tx_Begin :: (go_error, database, 'r world) op)"
    unfolding tx_Begin_def by (intro mirrors_andThen mirrors_basic)
  show "mirrors (tx_Exec stmt d)" unfolding tx_Exec_def by (intro mirrors_andThen mirrors_basic)
  show "mirrors (loadDeps u d)" unfolding loadDeps_def
    by (intro mirrors_andThen mirrors_basic mirrors_mapM mirrors_with_lib)
qed

lemma mirrors_insertDeps [simp, intro]: "mirrors (insertDeps u deps d)"
  unfolding insertDeps_def by (intro mirrors_foldM mirrors_andThen mirrors_blocks)

lemma mirrors_queryReady [simp, intro]: "mirrors (queryReady p limit d)"
  unfolding queryReady_def Let_def
  by (intro mirrors_andThen mirrors_basic mirrors_onError [THEN iffD2] mirrors_mapM mirrors_with_lib mirrors_with_locked
      mirrors_blocks)

lemmas keeps_rules = keeps_andThen keeps_mapM keeps_foldM keeps_with_lib keeps_with_locked

lemma keeps_lib_repo [simp]:
  "keeps lib (Create t)" "keeps lib (GetByID tid)" "keeps lib (UpdateTask tid m)"
  "keeps lib (PickAndMarkRunning n)" "keeps lib (LockNextPending n)" "keeps lib (Heartbeat tid wid)"
  "keeps lib (ResetStuckRunning d)" "keeps lib (CleanupExpired d)"
  unfolding Create_def GetByID_def UpdateTask_def PickAndMarkRunning_def LockNextPending_def
    Heartbeat_def ResetStuckRunning_def CleanupExpired_def Let_def
  by (intro keeps_rules; simp)+

end
