(* ===== verification/Postgres_Laws.thy ===== *)
theory Postgres_Laws
  imports Postgres_Repo
begin

text \<open>
  What the repository's methods do, derived from their definitions: a failed call has done all
  of its work or none, a successful one is characterised by the statements it committed. The
  abstract view of the database is the map from identifiers to tasks that \<open>view\<close> reads off the
  tables.
\<close>

text \<open>A stored task as the code reads it, with its dependencies.\<close>

definition stored_task :: "library \<Rightarrow> database \<Rightarrow> task_row \<Rightarrow> Task" where
  "stored_task l d r = (task_of_row l r)\<lparr>Dependencies := map (fromUUID l) (select_deps (r_id r) d)\<rparr>"

definition view_db :: "library \<Rightarrow> database \<Rightarrow> uuid \<Rightarrow> Task option" where
  "view_db l d u = map_option (stored_task l d) (select_task u d)"

definition view :: "'r world \<Rightarrow> uuid \<Rightarrow> Task option" where
  "view w = view_db (lib w) (db w)"

definition key :: "'r world \<Rightarrow> TaskID \<Rightarrow> uuid option" where
  "key w tid = (case uuid_Parse (lib w) tid of Inl _ \<Rightarrow> None | Inr u \<Rightarrow> Some u)"

text \<open>The well-formedness of the environment: library contract, schema, known statuses.\<close>

definition statuses_ok :: "database \<Rightarrow> bool" where
  "statuses_ok d \<longleftrightarrow> (\<forall>r \<in> set (tasks d). known_status (r_status r))"

definition pg_inv :: "'r world \<Rightarrow> bool" where
  "pg_inv w \<longleftrightarrow> uuid_ok (lib w) \<and> schema_ok (db w) \<and> statuses_ok (db w)"

text \<open>What of a mutated task survives in the row it is written to.\<close>

definition persisted :: "Task \<Rightarrow> Task \<Rightarrow> Task" where
  "persisted t t' =
     t\<lparr>Status := Status t', AttemptCount := int_of_int32 (int32_of_int (AttemptCount t')),
       RetryLimit := int_of_int32 (int32_of_int (RetryLimit t')),
       ScheduledAt := timestamptz (ScheduledAt t'), UpdatedAt := timestamptz (UpdatedAt t'),
       WorkerID := WorkerID t', LastError := LastError t', Result := Result t'\<rparr>"

text \<open>
  A call that returns an error has not changed the tables, or it has done all of its work: the
  tables are those it leaves when the call that was not confirmed is.
\<close>

definition all_or_nothing :: "(go_error, 'a, 'r world) op \<Rightarrow> bool" where
  "all_or_nothing m \<longleftrightarrow> (\<forall>w e w'. m w = (Inl e, w') \<longrightarrow>
     db w' = db w \<or> (\<exists>a w''. m (confirmed w) = (Inr a, w'') \<and> db w'' = db w'))"

text \<open>When no failing call was carried out, an error means that the tables are as before.\<close>

definition rolls_back :: "(go_error, 'a, 'r world) op \<Rightarrow> bool" where
  "rolls_back m \<longleftrightarrow> (\<forall>w e w'. m w = (Inl e, w') \<longrightarrow> (\<forall>n err. faults w n \<noteq> Some (Unconfirmed err)) \<longrightarrow> db w' = db w)"

definition atomic :: "(go_error, 'a, 'r world) op \<Rightarrow> bool" where
  "atomic m \<longleftrightarrow> all_or_nothing m \<and> rolls_back m"

subsection \<open>Building blocks\<close>

lemma toUUID_Inr_iff:
  "toUUID tid w = (Inr u, w') \<longleftrightarrow> uuid_Parse (lib w) tid = Inr u \<and> w' = w"
  by (auto simp: toUUID_def with_lib_def split: sum.splits)

lemma tx_Begin_Inr:
  "tx_Begin w = (Inr d, w') \<Longrightarrow>
     d = db w \<and> db w' = db w \<and> lib w' = lib w \<and> clock w' = clock w \<and> locked w' = locked w"
  by (auto simp: tx_Begin_def andThen_Inr_iff driver_Inr)

lemma tx_Exec_Inr:
  "tx_Exec stmt d w = (Inr a, w') \<Longrightarrow>
     stmt d = Inr a \<and> db w' = db w \<and> lib w' = lib w \<and> clock w' = clock w \<and> locked w' = locked w"
  by (auto simp: tx_Exec_def andThen_Inr_iff driver_Inr)

lemma tx_Commit_Inr:
  "tx_Commit d w = (Inr u, w') \<Longrightarrow> db w' = d \<and> lib w' = lib w"
  by (auto simp: tx_Commit_def install_Inr)

lemma scanTask_Inr:
  "scanTask row w = (Inr t, w') \<Longrightarrow>
     (\<exists>r. row = Some r \<and> t = task_of_row (lib w) r) \<and>
     db w' = db w \<and> lib w' = lib w \<and> clock w' = clock w"
  by (auto simp: scanTask_def andThen_Inr_iff with_lib_def driver_Inr split: option.splits)

lemma keeps_loadDeps_all:
  "keeps db (loadDeps u d)" "keeps lib (loadDeps u d)" "keeps clock (loadDeps u d)"
  by auto

lemma loadDeps_Inr:
  assumes "loadDeps u d w = (Inr ds, w')"
  shows "ds = map (fromUUID (lib w)) (select_deps u d) \<and> db w' = db w \<and> lib w' = lib w \<and>
     clock w' = clock w"
proof -
  let ?f = "\<lambda>dep. andThen driver (\<lambda>_. with_lib (\<lambda>l. ret (fromUUID l dep)))"
  let ?w = "w\<lparr>faults := shift (faults w)\<rparr>"
  from assms obtain w2 where m: "mapM ?f (select_deps u d) ?w = (Inr ds, w2)"
    by (auto simp: loadDeps_def andThen_Inr_iff driver_Inr)
  have "ds = map (fromUUID (lib w)) (select_deps u d) \<and> lib w2 = lib w"
  proof (rule mapM_Inr_map [where P = "\<lambda>v. lib v = lib w", OF _ _ m])
    show "y = fromUUID (lib w) x \<and> lib v' = lib w" if "lib v = lib w" "?f x v = (Inr y, v')" for v x y v'
      using that by (auto simp: andThen_Inr_iff driver_Inr with_lib_def)
  qed simp
  then show ?thesis using keeps_loadDeps_all [THEN keepsD, OF assms] by simp
qed

lemmas tx_dest = tx_Begin_Inr tx_Exec_Inr tx_Commit_Inr scanTask_Inr loadDeps_Inr

lemma all_or_nothing_keeps: "keeps db m \<Longrightarrow> all_or_nothing m"
  by (auto simp: all_or_nothing_def dest: keepsD)

lemma all_or_nothing_onError [simp]: "all_or_nothing (onError g m) \<longleftrightarrow> all_or_nothing m"
  by (auto simp: all_or_nothing_def onError_Inl_iff)

lemma all_or_nothing_andThen:
  assumes "keeps db m" "mirrors m" "\<And>a. all_or_nothing (k a)"
  shows "all_or_nothing (andThen m k)"
  unfolding all_or_nothing_def
proof (intro allI impI)
  fix w e w'
  assume "andThen m k w = (Inl e, w')"
  then consider "m w = (Inl e, w')" | a w1 where "m w = (Inr a, w1)" "k a w1 = (Inl e, w')"
    by (auto simp: andThen_Inl_iff)
  then show "db w' = db w \<or> (\<exists>b w''. andThen m k (confirmed w) = (Inr b, w'') \<and> db w'' = db w')"
  proof cases
    case 1
    then show ?thesis using keepsD [OF assms(1)] by blast
  next
    case (2 a w1)
    then have "db w1 = db w" using keepsD [OF assms(1)] by blast
    moreover have "db w' = db w1 \<or> (\<exists>b w''. k a (confirmed w1) = (Inr b, w'') \<and> db w'' = db w')"
      using assms(3) 2(2) by (simp add: all_or_nothing_def)
    ultimately show ?thesis using mirrorsD [OF assms(2) 2(1)] by (auto simp: andThen_Inr_iff)
  qed
qed

lemma install_unconfirmed:
  "install a d w = (Inl e, w') \<Longrightarrow> db w' = db w \<or> db w' = d \<and> faults (confirmed w) 0 = None"
  by (auto simp: install_Inl confirmed_def)

lemma all_or_nothing_tx_Commit [simp]:
  "all_or_nothing (tx_Commit d)" "all_or_nothing (andThen (tx_Commit d) (\<lambda>_. ret t))"
  unfolding all_or_nothing_def tx_Commit_def
  by (fastforce simp: install_Inr andThen_Inl_iff andThen_Inr_iff dest!: install_unconfirmed)+

lemma all_or_nothing_pool_Exec [simp]: "all_or_nothing (pool_Exec s)"
  unfolding all_or_nothing_def pool_Exec_def by (fastforce simp: install_Inr dest!: install_unconfirmed)

lemmas all_or_nothing_rules = all_or_nothing_andThen all_or_nothing_keeps

lemma repo_all_or_nothing:
  "all_or_nothing (Create t)" "all_or_nothing (GetByID tid)" "all_or_nothing (UpdateTask tid m)"
  "all_or_nothing (PickAndMarkRunning n)" "all_or_nothing (LockNextPending n)"
  "all_or_nothing (ResetStuckRunning d)" "all_or_nothing (CleanupExpired d)"
  unfolding Create_def GetByID_def UpdateTask_def PickAndMarkRunning_def LockNextPending_def
    ResetStuckRunning_def CleanupExpired_def Let_def
  by (intro all_or_nothing_tx_Commit all_or_nothing_onError [THEN iffD2] all_or_nothing_andThen;
      auto intro!: keeps_rules mirrors_foldM mirrors_andThen)+

lemma all_or_nothing_atomic:
  assumes "all_or_nothing m"
  shows "atomic m"
proof -
  have "db w' = db w" if m: "m w = (Inl e, w')" and c: "\<forall>n err. faults w n \<noteq> Some (Unconfirmed err)" for w e w'
  proof -
    from c have "confirmed w = w" by (simp add: confirmed_id)
    with m have "m (confirmed w) = (Inl e, w')" by simp
    then show ?thesis using assms [unfolded all_or_nothing_def, rule_format, OF m] by auto
  qed
  with assms show ?thesis by (simp add: atomic_def rolls_back_def)
qed

subsection \<open>Create\<close>

text \<open>The pure effect of \<^verbatim>\<open>insertDeps\<close> once every identifier has parsed.\<close>

lemma insertDeps_Inr:
  assumes "insertDeps u deps d w = (Inr d', w')"
  shows "\<exists>vs. list_all2 (\<lambda>x v. uuid_Parse (lib w) x = Inr v) deps vs \<and> tasks d' = tasks d \<and>
     task_dependencies d' = task_dependencies d @ map (Pair u) vs \<and> set vs \<subseteq> r_id ` set (tasks d) \<and>
     (schema_ok d \<longrightarrow> schema_ok d')"
  using assms
proof (induction deps arbitrary: d w)
  case Nil
  then show ?case by (simp add: insertDeps_def)
next
  case (Cons x deps)
  from Cons.prems obtain v d1 w1 where v: "uuid_Parse (lib w) x = Inr v"
    and e: "tx_Exec (insert_dep u v) d w = (Inr d1, w1)" and r: "insertDeps u deps d1 w1 = (Inr d', w')"
    by (auto simp: insertDeps_def andThen_Inr_iff toUUID_Inr_iff)
  from tx_Exec_Inr [OF e] have i: "insert_dep u v d = Inr d1" and l: "lib w1 = lib w" by blast+
  from Cons.IH [OF r] obtain vs where vs: "list_all2 (\<lambda>x v. uuid_Parse (lib w) x = Inr v) deps vs"
    "tasks d' = tasks d1" "task_dependencies d' = task_dependencies d1 @ map (Pair u) vs"
    "set vs \<subseteq> r_id ` set (tasks d1)" "schema_ok d1 \<longrightarrow> schema_ok d'"
    unfolding l by blast
  show ?case
    by (rule exI [of _ "v # vs"])
      (use vs v i schema_ok_insert_dep [OF i] in \<open>auto simp: insert_dep_Inr_iff\<close>)
qed

lemma Create_Inr:
  assumes "Create t w = (Inr x, w')"
  obtains u d1 vs where "uuid_Parse (lib w) (ID t) = Inr u"
    and "insert_task (row_of_task u t) (db w) = Inr d1"
    and "list_all2 (\<lambda>x v. uuid_Parse (lib w) x = Inr v) (Dependencies t) vs"
    and "tasks (db w') = tasks (db w) @ [row_of_task u t]"
    and "task_dependencies (db w') = task_dependencies (db w) @ map (Pair u) vs"
    and "set vs \<subseteq> insert u (r_id ` set (tasks (db w)))"
    and "schema_ok (db w) \<Longrightarrow> schema_ok (db w')" and "lib w' = lib w"
proof -
  from assms obtain u d0 d1 d2 w1 w2 w3 where u: "uuid_Parse (lib w) (ID t) = Inr u"
    and b: "tx_Begin w = (Inr d0, w1)" and i: "tx_Exec (insert_task (row_of_task u t)) d0 w1 = (Inr d1, w2)"
    and di: "insertDeps u (Dependencies t) d1 w2 = (Inr d2, w3)" and c: "tx_Commit d2 w3 = (Inr x, w')"
    by (auto simp: Create_def andThen_Inr_iff toUUID_Inr_iff)
  note f = tx_Begin_Inr [OF b] tx_Exec_Inr [OF i] tx_Commit_Inr [OF c]
  have "keeps lib (insertDeps u (Dependencies t) d1)" by simp
  then have l3: "lib w3 = lib w2" using di by (rule keepsD)
  from f have ins: "insert_task (row_of_task u t) (db w) = Inr d1" by simp
  then have d1: "d1 = (db w)\<lparr>tasks := tasks (db w) @ [row_of_task u t]\<rparr>"
    by (simp add: insert_task_Inr_iff)
  from insertDeps_Inr [OF di] f obtain vs
    where vs: "list_all2 (\<lambda>x v. uuid_Parse (lib w) x = Inr v) (Dependencies t) vs" "tasks d2 = tasks d1"
      "task_dependencies d2 = task_dependencies d1 @ map (Pair u) vs" "set vs \<subseteq> r_id ` set (tasks d1)"
      "schema_ok d1 \<longrightarrow> schema_ok d2"
    by auto
  show thesis
    by (rule that [OF u ins vs(1)])
      (use vs f l3 schema_ok_insert_task [OF ins] in \<open>auto simp: d1 row_of_task_def\<close>)
qed

subsection \<open>Reading\<close>

lemma GetByID_Inr:
  assumes "GetByID tid w = (Inr t, w')"
  shows "(\<exists>u. key w tid = Some u \<and> view w u = Some t) \<and> db w' = db w \<and> lib w' = lib w"
proof -
  from assms obtain u d t0 ds w1 w2 w3 x where u: "uuid_Parse (lib w) tid = Inr u"
    and b: "tx_Begin w = (Inr d, w1)" and s: "scanTask (select_task u d) w1 = (Inr t0, w2)"
    and l: "loadDeps u d w2 = (Inr ds, w3)" and c: "tx_Commit d w3 = (Inr x, w')"
    and t: "t = t0\<lparr>Dependencies := ds\<rparr>"
    by (auto simp: GetByID_def andThen_Inr_iff toUUID_Inr_iff)
  note f = tx_Begin_Inr [OF b] scanTask_Inr [OF s] loadDeps_Inr [OF l] tx_Commit_Inr [OF c]
  from f obtain r where r: "select_task u (db w) = Some r" "t0 = task_of_row (lib w) r" by auto
  then have "r_id r = u" by (auto simp: select_task_def find_Some_iff)
  with r f t have "view w u = Some t" by (simp add: view_def view_db_def stored_task_def)
  with u f show ?thesis by (auto simp: key_def)
qed

lemma keeps_db_GetByID: "keeps db (GetByID tid)"
proof (rule keepsI)
  fix w r w'
  assume g: "GetByID tid w = (r, w')"
  show "db w' = db w"
  proof (cases r)
    case (Inl e)
    with g have "db w' = db w \<or> (\<exists>a w''. GetByID tid (confirmed w) = (Inr a, w'') \<and> db w'' = db w')"
      using repo_all_or_nothing(2) [unfolded all_or_nothing_def, rule_format] by blast
    then show ?thesis using GetByID_Inr [of tid "confirmed w"] by auto
  qed (use g GetByID_Inr in auto)
qed

lemma keeps_FindByIdempotencyKey [simp]: "keeps f driver \<Longrightarrow> keeps f (FindByIdempotencyKey k)"
  using keeps_scanTask [of f] by (simp add: keeps_def FindByIdempotencyKey_def)

lemma FindByIdempotencyKey_Inr:
  assumes "FindByIdempotencyKey k w = (Inr t, w')"
  shows "\<exists>r \<in> set (tasks (db w)). r_idempotency_key r = Some k \<and> t = task_of_row (lib w) r"
  using assms scanTask_Inr [of "select_by_key k (db w)" w]
  by (fastforce simp: FindByIdempotencyKey_def select_by_key_def find_Some_iff)

lemma FindByIdempotencyKey_Inl:
  assumes "FindByIdempotencyKey k w = (Inl e, w')" and "errors_Is e ErrNotFound"
    and "\<And>n f. faults w n = Some f \<Longrightarrow> \<not> errors_Is (fault_error f) ErrNotFound"
  shows "\<forall>r \<in> set (tasks (db w)). r_idempotency_key r \<noteq> Some k"
proof -
  from assms have "select_by_key k (db w) = None"
    by (auto simp: FindByIdempotencyKey_def onError_Inl_iff scanTask_def andThen_Inl_iff driver_Inl
        with_lib_def split: option.splits)
  then show ?thesis by (simp add: select_by_key_def find_None_iff)
qed

subsection \<open>UpdateTask\<close>

lemma select_task_update_where:
  assumes "\<And>r. r_id (f r) = r_id r"
  shows "select_task u (snd (update_where P f d)) =
     map_option (\<lambda>r. if P r then f r else r) (select_task u d)"
  unfolding select_task_def by (simp add: find_map_key assms)

lemma select_deps_update_where [simp]: "select_deps u (snd (update_where P f d)) = select_deps u d"
  by (simp add: select_deps_def)

lemma text_or_empty_nullText [simp]: "text_or_empty (nullText s) = s"
  by (simp add: text_or_empty_def nullText_def)

lemma select_task_id: "select_task u d = Some r \<Longrightarrow> r_id r = u \<and> r \<in> set (tasks d)"
  by (auto simp: select_task_def find_Some_iff)

lemma view_update_where:
  assumes "\<And>r. r_id (f r) = r_id r"
  shows "view_db l (snd (update_where P f d)) u =
     (case select_task u d of None \<Rightarrow> None
      | Some r \<Rightarrow> Some (stored_task l d (if P r then f r else r)))"
  by (simp add: view_db_def select_task_update_where assms stored_task_def split: option.splits)

lemma view_update_task:
  "view_db l (update_task v t' d) u =
     (if u = v then map_option (\<lambda>t. persisted t t') (view_db l d u) else view_db l d u)"
proof -
  have ids: "r_id (set_columns t' r) = r_id r" for r by (simp add: set_columns_def)
  show ?thesis
  proof (cases "select_task u d")
    case None
    then show ?thesis by (auto simp: update_task_def view_update_where [OF ids] view_db_def [of l d])
  next
    case (Some r)
    then show ?thesis
      using select_task_id [OF Some]
      by (auto simp: update_task_def view_update_where [OF ids] view_db_def [of l d] persisted_def
          stored_task_def task_of_row_def set_columns_def)
  qed
qed

lemma schema_ok_update_task: "schema_ok d \<Longrightarrow> schema_ok (update_task u t d)"
  unfolding update_task_def by (rule schema_ok_update) (simp_all add: set_columns_def)

lemma UpdateTask_Inr:
  assumes "UpdateTask tid m w = (Inr t', w')"
  obtains u t now where "key w tid = Some u" "view w u = Some t" "m now t = Inr t'"
    "db w' = update_task u t' (db w)" "lib w' = lib w"
proof -
  from assms obtain u d t0 ds d' w1 w2 w3 w4 x where u: "uuid_Parse (lib w) tid = Inr u"
    and b: "tx_Begin w = (Inr d, w1)" and s: "scanTask (select_task u d) w1 = (Inr t0, w2)"
    and l: "loadDeps u d w2 = (Inr ds, w3)"
    and m: "m (clock w3 0) (t0\<lparr>Dependencies := ds\<rparr>) = Inr t'"
    and e: "tx_Exec (\<lambda>d. Inr (update_task u t' d)) d (w3\<lparr>clock := shift (clock w3)\<rparr>) = (Inr d', w4)"
    and c: "tx_Commit d' w4 = (Inr x, w')"
    by (auto simp: UpdateTask_def andThen_Inr_iff toUUID_Inr_iff)
  note f = tx_Begin_Inr [OF b] scanTask_Inr [OF s] loadDeps_Inr [OF l] tx_Exec_Inr [OF e] tx_Commit_Inr [OF c]
  from f obtain r where r: "select_task u (db w) = Some r" "t0 = task_of_row (lib w) r" by auto
  with f have "view w u = Some (t0\<lparr>Dependencies := ds\<rparr>)"
    using select_task_id [OF r(1)] by (simp add: view_def view_db_def stored_task_def)
  with u f m show thesis by (intro that [of u]) (auto simp: key_def)
qed

text \<open>Which errors \<^verbatim>\<open>UpdateTask\<close> can return: the driver's, a malformed identifier, a missing row, the callback's.\<close>

lemma UpdateTask_missing:
  assumes "key w tid = Some u" "view w u = None"
  shows "\<exists>e w'. UpdateTask tid m w = (Inl e, w') \<and>
     (errors_Is e ErrNotFound \<or> (\<exists>n f. faults w n = Some f \<and> root_cause e = root_cause (fault_error f)))"
proof -
  from assms have u: "toUUID tid w = (Inr u, w)" and r: "select_task u (db w) = None"
    by (auto simp: toUUID_Inr_iff key_def view_def view_db_def split: sum.splits)
  show ?thesis
  proof (cases "tx_Begin w")
    case (Pair r1 w1)
    show ?thesis
    proof (cases r1)
      case (Inl f)
      then have "\<exists>x. faults w 0 = Some x \<and> f = fault_error x"
        using Pair by (auto simp: tx_Begin_def andThen_Inl_iff driver_Inl)
      with Inl Pair u show ?thesis
        by (auto simp: UpdateTask_def op_defs)
    next
      case (Inr d)
      then have d: "d = db w" "w1 = w\<lparr>faults := shift (faults w)\<rparr>"
        using Pair by (auto simp: tx_Begin_def andThen_Inr_iff driver_Inr)
      show ?thesis
      proof (cases "faults w 1")
        case None
        with Inr Pair u d r show ?thesis
          by (simp add: UpdateTask_def op_defs scanTask_def driver_def shift_def)
      next
        case (Some f)
        with Inr Pair u d r show ?thesis
          by (simp add: UpdateTask_def op_defs scanTask_def driver_def shift_def)
            (metis)
      qed
    qed
  qed
qed

subsection \<open>PickAndMarkRunning\<close>

lemma scan_rows_Inr:
  assumes "mapM (\<lambda>r. scanTask (Some r)) rows w = (Inr ts, w')"
  shows "ts = map (task_of_row (lib w)) rows \<and> lib w' = lib w"
  by (rule mapM_Inr_map [where P = "\<lambda>v. lib v = lib w", OF _ _ assms]) (auto dest: scanTask_Inr)

lemma queryReady_Inr:
  assumes "queryReady p n d w = (Inr ts, w')" and "uuid_ok (lib w)"
  shows "\<exists>rows. select_ready (locked w) (timestamptz (clock w 0)) (int32_of_int n) d = Inr rows \<and>
     ts = map (stored_task (lib w) d) rows"
proof -
  let ?load = "\<lambda>t. with_lib (\<lambda>l. let uid = (case uuid_Parse l (ID t) of Inl _ \<Rightarrow> 0 | Inr u \<Rightarrow> u) in
       andThen (onError (errorf (p @ ''deps: '')) (loadDeps uid d)) (\<lambda>deps. ret (t\<lparr>Dependencies := deps\<rparr>)))"
  let ?w0 = "w\<lparr>clock := shift (clock w)\<rparr>"
  from assms(1) obtain rows ts0 w1 w2 w3
    where q: "tx_Exec (select_ready (locked w) (timestamptz (clock w 0)) (int32_of_int n)) d ?w0 = (Inr rows, w1)"
      and s: "mapM (\<lambda>r. scanTask (Some r)) rows w1 = (Inr ts0, w2)"
      and e: "driver w2 = (Inr (), w3)" and m: "mapM ?load ts0 w3 = (Inr ts, w')"
    by (auto simp: queryReady_def andThen_Inr_iff with_locked_def)
  note q = tx_Exec_Inr [OF q] and s = scan_rows_Inr [OF s]
  have l3: "lib w3 = lib w" using e q s by (auto simp: driver_Inr)
  have "ts = map (\<lambda>t. t\<lparr>Dependencies := map (fromUUID (lib w))
      (select_deps (case uuid_Parse (lib w) (ID t) of Inl _ \<Rightarrow> 0 | Inr u \<Rightarrow> u) d)\<rparr>) ts0 \<and> lib w' = lib w"
  proof (rule mapM_Inr_map [where P = "\<lambda>v. lib v = lib w", OF _ l3 m])
    fix x v y v'
    assume "lib v = lib w" "?load x v = (Inr y, v')"
    then show "y = x\<lparr>Dependencies := map (fromUUID (lib w))
        (select_deps (case uuid_Parse (lib w) (ID x) of Inl _ \<Rightarrow> 0 | Inr u \<Rightarrow> u) d)\<rparr> \<and> lib v' = lib w"
      by (auto simp: with_lib_def Let_def andThen_Inr_iff dest!: loadDeps_Inr)
  qed
  moreover have "ts0 = map (task_of_row (lib w)) rows" using s q by simp
  ultimately have "ts = map (stored_task (lib w) d) rows"
    using assms(2) by (simp add: stored_task_def task_of_row_def fromUUID_def uuid_ok_def)
  with q show ?thesis by blast
qed

text \<open>Marking the picked rows one by one is one update of all of them.\<close>

lemma fold_mark_running:
  "fold (\<lambda>u. mark_running u now) us d =
     snd (update_where (\<lambda>r. r_id r \<in> set us)
            (\<lambda>r. r\<lparr>r_status := ''running'', r_updated_at := timestamptz now\<rparr>) d)"
proof (induction us arbitrary: d)
  case Nil
  then show ?case by (simp add: update_where_def)
next
  case (Cons u us)
  then show ?case by (auto simp: mark_running_def update_where_def)
qed

lemma mark_loop_Inr:
  assumes "foldM (\<lambda>t d. andThen (toUUID (ID t)) (\<lambda>uid. onError (g t)
      (tx_Exec (\<lambda>d. Inr (mark_running uid now d)) d))) ts d w = (Inr d', w')"
    and "list_all2 (\<lambda>t u. uuid_Parse (lib w) (ID t) = Inr u) ts us"
  shows "d' = fold (\<lambda>u. mark_running u now) us d \<and> lib w' = lib w"
  using assms
proof (induction ts arbitrary: us d w)
  case Nil
  then show ?case by simp
next
  case (Cons t ts)
  from Cons.prems(2) obtain u vs where us: "us = u # vs" "uuid_Parse (lib w) (ID t) = Inr u"
    "list_all2 (\<lambda>t u. uuid_Parse (lib w) (ID t) = Inr u) ts vs"
    by (auto simp: list_all2_Cons1)
  with Cons.prems(1) obtain d1 w1
    where e: "tx_Exec (\<lambda>d. Inr (mark_running u now d)) d w = (Inr d1, w1)"
      and r: "foldM (\<lambda>t d. andThen (toUUID (ID t)) (\<lambda>uid. onError (g t)
      (tx_Exec (\<lambda>d. Inr (mark_running uid now d)) d))) ts d1 w1 = (Inr d', w')"
    by (auto simp: andThen_Inr_iff toUUID_Inr_iff)
  from tx_Exec_Inr [OF e] us Cons.IH [OF r, of vs] show ?case by simp
qed

lemma PickAndMarkRunning_Inr:
  assumes "PickAndMarkRunning n w = (Inr ts, w')" and "uuid_ok (lib w)"
  obtains rows now where
    "select_ready (locked w) (timestamptz (clock w 0)) (int32_of_int n) (db w) = Inr rows"
    "ts = map (\<lambda>r. (stored_task (lib w) (db w) r)\<lparr>Status := StatusRunning, UpdatedAt := now\<rparr>) rows"
    "db w' = snd (update_where (\<lambda>r. r_id r \<in> r_id ` set rows)
            (\<lambda>r. r\<lparr>r_status := ''running'', r_updated_at := timestamptz now\<rparr>) (db w))"
    "lib w' = lib w"
proof -
  let ?step = "\<lambda>now t d. andThen (toUUID (ID t)) (\<lambda>uid.
        onError (errorf (''postgres: pick-and-mark: update '' @ ID t @ '': ''))
          (tx_Exec (\<lambda>d. Inr (mark_running uid now d)) d))"
  from assms(1) obtain d ts0 d' w1 w2 w3 x where b: "tx_Begin w = (Inr d, w1)"
    and q: "queryReady ''postgres: pick-and-mark: '' n d w1 = (Inr ts0, w2)"
    and m: "foldM (?step (clock w2 0)) ts0 d (w2\<lparr>clock := shift (clock w2)\<rparr>) = (Inr d', w3)"
    and c: "tx_Commit d' w3 = (Inr x, w')"
    and ts: "ts = map (\<lambda>t. t\<lparr>Status := StatusRunning, UpdatedAt := clock w2 0\<rparr>) ts0"
    by (auto simp: PickAndMarkRunning_def andThen_Inr_iff)
  note b = tx_Begin_Inr [OF b] and c = tx_Commit_Inr [OF c]
  have "keeps lib (queryReady ''postgres: pick-and-mark: '' n d)" by simp
  then have l2: "lib w2 = lib w1" using q by (rule keepsD)
  from queryReady_Inr [OF q] b assms(2) obtain rows
    where rows: "select_ready (locked w) (timestamptz (clock w 0)) (int32_of_int n) (db w) = Inr rows"
      and ts0: "ts0 = map (stored_task (lib w) (db w)) rows" by auto
  have "list_all2 (\<lambda>t u. uuid_Parse (lib (w2\<lparr>clock := shift (clock w2)\<rparr>)) (ID t) = Inr u) ts0 (map r_id rows)"
    using assms(2) b l2
    by (simp add: ts0 list_all2_conv_all_nth stored_task_def task_of_row_def fromUUID_def uuid_ok_def)
  from mark_loop_Inr [OF m this] c b l2 show thesis
    by (intro that [OF rows, of "clock w2 0"]) (auto simp: ts ts0 fold_mark_running)
qed

end
