(* ===== verification/Repository_Contract.thy ===== *)
theory Repository_Contract
  imports Ports
begin

text \<open>
  The contract of the \<^verbatim>\<open>TaskRepository\<close> port as its clients rely on it. A repository has an
  abstract state, the map \<open>view\<close> from keys to tasks, an invariant \<open>inv\<close>, and \<open>key\<close>, which reads
  the client's identifier. \<open>stored\<close> says what of a mutated task is kept. The use cases are
  verified once against the locale; the PostgreSQL adapter is an interpretation of it.

  \<open>evolves\<close> is the life cycle of the whole table in one step: a task keeps its identity, its
  status stays or moves along the transition table, new tasks are pending, only tasks in a
  terminal status disappear.
\<close>

definition same_identity :: "Task \<Rightarrow> Task \<Rightarrow> bool" where
  "same_identity t t' \<longleftrightarrow>
     ID t' = ID t \<and> Type t' = Type t \<and> Payload t' = Payload t \<and> Priority t' = Priority t \<and>
     CreatedAt t' = CreatedAt t \<and> IdempotencyKey t' = IdempotencyKey t \<and>
     set (Dependencies t') \<subseteq> set (Dependencies t)"

definition status_moves :: "Status \<Rightarrow> Status \<Rightarrow> bool" where
  "status_moves a b \<longleftrightarrow> b = a \<or> allowed a b"

definition evolves :: "('k \<Rightarrow> Task option) \<Rightarrow> ('k \<Rightarrow> Task option) \<Rightarrow> bool" where
  "evolves v v' \<longleftrightarrow> (\<forall>k. case v k of
       None \<Rightarrow> (case v' k of None \<Rightarrow> True | Some t' \<Rightarrow> Status t' = StatusPending)
     | Some t \<Rightarrow> (case v' k of
           None \<Rightarrow> terminal (Status t)
         | Some t' \<Rightarrow> same_identity t t' \<and> status_moves (Status t) (Status t')))"

text \<open>
  The statuses of a task that has been dispatched. \<open>carries\<close> relates two tables of which the
  second dispatches nothing and stores nothing new: its tasks were in the first one, none has
  been started in between, and none has left a terminal status. It composes.
\<close>

definition started :: "Status \<Rightarrow> bool" where
  "started s \<longleftrightarrow> s \<in> {StatusRunning, StatusCompleted, StatusFailed}"

definition carries :: "('k \<Rightarrow> Task option) \<Rightarrow> ('k \<Rightarrow> Task option) \<Rightarrow> bool" where
  "carries v v' \<longleftrightarrow> (\<forall>k t'. v' k = Some t' \<longrightarrow>
     (\<exists>t. v k = Some t \<and> same_identity t t' \<and> (started (Status t') \<longrightarrow> started (Status t)) \<and>
        (terminal (Status t) \<longrightarrow> Status t' = Status t)))"

text \<open>Two tables between which nothing but heartbeats has happened, if that.\<close>

definition rests :: "('k \<Rightarrow> Task option) \<Rightarrow> ('k \<Rightarrow> Task option) \<Rightarrow> bool" where
  "rests v v' \<longleftrightarrow> dom v' = dom v \<and>
     (\<forall>k t t'. v k = Some t \<longrightarrow> v' k = Some t' \<longrightarrow> same_identity t t' \<and> Status t' = Status t)"

text \<open>A step of the life cycle in which no task appears, disappears or starts.\<close>

definition progresses :: "('k \<Rightarrow> Task option) \<Rightarrow> ('k \<Rightarrow> Task option) \<Rightarrow> bool" where
  "progresses v v' \<longleftrightarrow> evolves v v' \<and> dom v \<subseteq> dom v' \<and> carries v v'"

text \<open>A mutation the contract of \<^verbatim>\<open>UpdateTask\<close> accepts: it moves the status as the table allows.\<close>

definition lawful :: "mutation \<Rightarrow> bool" where
  "lawful m \<longleftrightarrow> (\<forall>now t t'. m now t = Inr t' \<longrightarrow> allowed (Status t) (Status t'))"

text \<open>One that, besides, never starts a task.\<close>

definition halting :: "mutation \<Rightarrow> bool" where
  "halting m \<longleftrightarrow> lawful m \<and> (\<forall>now t t'. m now t = Inr t' \<longrightarrow> Status t' \<noteq> StatusRunning)"

text \<open>What a repository keeps of a task it creates.\<close>

definition created_as :: "Task \<Rightarrow> Task \<Rightarrow> bool" where
  "created_as t t' \<longleftrightarrow>
     Type t' = Type t \<and> Payload t' = Payload t \<and> Priority t' = Priority t \<and> Status t' = Status t \<and>
     LastError t' = LastError t \<and> Result t' = Result t \<and> WorkerID t' = WorkerID t \<and>
     IdempotencyKey t' = IdempotencyKey t \<and>
     (fits_int32 (AttemptCount t) \<longrightarrow> AttemptCount t' = AttemptCount t) \<and>
     (fits_int32 (RetryLimit t) \<longrightarrow> RetryLimit t' = RetryLimit t) \<and>
     ScheduledAt t' \<le> ScheduledAt t \<and> ScheduledAt t < ScheduledAt t' + 1000"

lemma same_identity_refl [simp]: "same_identity t t"
  by (simp add: same_identity_def)

lemma same_identity_trans: "same_identity t t1 \<Longrightarrow> same_identity t1 t2 \<Longrightarrow> same_identity t t2"
  by (auto simp: same_identity_def)

lemma status_moves_refl [simp]: "status_moves s s"
  by (simp add: status_moves_def)

lemma evolves_refl [simp]: "evolves v v"
  by (auto simp: evolves_def split: option.splits)

lemma evolves_pointwise:
  assumes "\<And>k. v' k = v k \<or>
     (\<exists>t t'. v k = Some t \<and> v' k = Some t' \<and> same_identity t t' \<and> status_moves (Status t) (Status t'))"
  shows "evolves v v'"
  unfolding evolves_def
proof
  fix k
  show "case v k of None \<Rightarrow> (case v' k of None \<Rightarrow> True | Some t' \<Rightarrow> Status t' = StatusPending)
     | Some t \<Rightarrow> (case v' k of None \<Rightarrow> terminal (Status t)
         | Some t' \<Rightarrow> same_identity t t' \<and> status_moves (Status t) (Status t'))"
    using assms [of k] by (auto split: option.splits)
qed

lemma evolves_upd:
  assumes "v k = Some t" "same_identity t t'" "status_moves (Status t) (Status t')"
  shows "evolves v (v(k \<mapsto> t'))"
  using assms by (auto simp: evolves_def split: option.splits)

lemma evolves_new:
  assumes "v k = None" "Status t' = StatusPending"
  shows "evolves v (v(k \<mapsto> t'))"
  using assms by (auto simp: evolves_def split: option.splits)

lemma carries_refl [simp]: "carries v v"
  by (simp add: carries_def)

lemma carries_trans [trans]: "carries v v1 \<Longrightarrow> carries v1 v2 \<Longrightarrow> carries v v2"
  unfolding carries_def by (fastforce dest: same_identity_trans)

text \<open>A status that moves along the table without coming to running starts nothing.\<close>

lemma move_started:
  "status_moves a b \<Longrightarrow> b = a \<or> b \<noteq> StatusRunning \<Longrightarrow> (started b \<longrightarrow> started a) \<and> (terminal a \<longrightarrow> b = a)"
  by (auto simp: status_moves_def allowed_iff started_def terminal_def)

lemma carries_pointwise:
  assumes "\<And>k. v' k = None \<or> v' k = v k \<or>
     (\<exists>t t'. v k = Some t \<and> v' k = Some t' \<and> same_identity t t' \<and> status_moves (Status t) (Status t') \<and>
        (Status t' = Status t \<or> Status t' \<noteq> StatusRunning))"
  shows "carries v v'"
  unfolding carries_def
proof (intro allI impI)
  fix k t'
  assume k: "v' k = Some t'"
  with assms [of k] consider "v k = Some t'" | t where "v k = Some t" "same_identity t t'"
    "status_moves (Status t) (Status t')" "Status t' = Status t \<or> Status t' \<noteq> StatusRunning"
    by (metis option.distinct(1) option.inject)
  then show "\<exists>t. v k = Some t \<and> same_identity t t' \<and> (started (Status t') \<longrightarrow> started (Status t)) \<and>
        (terminal (Status t) \<longrightarrow> Status t' = Status t)"
    by cases (use move_started in auto)
qed

lemma carries_upd:
  assumes "v k = Some t" "same_identity t t'" "status_moves (Status t) (Status t')"
    "Status t' = Status t \<or> Status t' \<noteq> StatusRunning"
  shows "carries v (v(k \<mapsto> t'))"
  using assms by (intro carries_pointwise) auto

text \<open>Rests compose, and one before a step of the life cycle leaves it one step.\<close>

lemma rests_refl [simp]: "rests v v"
  by (simp add: rests_def)

lemma rests_upd:
  assumes "v k = Some t" "same_identity t t'" "Status t' = Status t"
  shows "rests v (v(k \<mapsto> t'))"
  using assms by (auto simp: rests_def split: if_splits)

lemma rests_None: "rests v v' \<Longrightarrow> v' k = None \<longleftrightarrow> v k = None"
  unfolding rests_def by (metis domIff)

lemma rests_Some:
  assumes "rests v v'" "v k = Some t"
  shows "\<exists>t'. v' k = Some t' \<and> same_identity t t' \<and> Status t' = Status t"
proof -
  have "k \<in> dom v'" using assms by (auto simp: rests_def)
  then obtain t' where "v' k = Some t'" by blast
  with assms show ?thesis by (auto simp: rests_def)
qed

lemma rests_back:
  assumes "rests v v'" "v' k = Some t'"
  shows "\<exists>t. v k = Some t \<and> same_identity t t' \<and> Status t' = Status t"
proof -
  have "k \<in> dom v" using assms by (auto simp: rests_def)
  then obtain t where "v k = Some t" by blast
  with assms show ?thesis by (auto simp: rests_def)
qed

lemma rests_carries: "rests v v' \<Longrightarrow> carries v v'"
  unfolding carries_def by (intro allI impI) (drule (1) rests_back, auto)

lemma rests_trans:
  assumes "rests v v1" "rests v1 v2"
  shows "rests v v2"
proof -
  have "same_identity t t2 \<and> Status t2 = Status t" if k: "v k = Some t" "v2 k = Some t2" for k t t2
  proof -
    from rests_Some [OF assms(1) k(1)] obtain t1 where t1: "v1 k = Some t1" "same_identity t t1" "Status t1 = Status t"
      by blast
    with rests_Some [OF assms(2) t1(1)] k(2) show ?thesis using same_identity_trans by auto
  qed
  moreover have "dom v2 = dom v" using assms by (simp add: rests_def)
  ultimately show ?thesis by (simp add: rests_def)
qed

lemma rests_evolves:
  assumes "rests v v1" "evolves v1 v2"
  shows "evolves v v2"
  unfolding evolves_def
proof
  fix k
  have e: "case v1 k of None \<Rightarrow> (case v2 k of None \<Rightarrow> True | Some t' \<Rightarrow> Status t' = StatusPending)
     | Some t \<Rightarrow> (case v2 k of None \<Rightarrow> terminal (Status t)
         | Some t' \<Rightarrow> same_identity t t' \<and> status_moves (Status t) (Status t'))"
    using assms(2) by (simp add: evolves_def)
  show "case v k of None \<Rightarrow> (case v2 k of None \<Rightarrow> True | Some t' \<Rightarrow> Status t' = StatusPending)
     | Some t \<Rightarrow> (case v2 k of None \<Rightarrow> terminal (Status t)
         | Some t' \<Rightarrow> same_identity t t' \<and> status_moves (Status t) (Status t'))"
  proof (cases "v k")
    case None
    then show ?thesis using rests_None [OF assms(1), of k] e by simp
  next
    case (Some t)
    from rests_Some [OF assms(1) this] obtain t1 where t1: "v1 k = Some t1" "same_identity t t1" "Status t1 = Status t"
      by blast
    with Some e show ?thesis by (cases "v2 k") (auto intro: same_identity_trans)
  qed
qed

lemma rests_then_progresses:
  assumes "rests v v1" "progresses v1 v2"
  shows "progresses v v2"
proof -
  have "dom v = dom v1" using assms(1) by (simp add: rests_def)
  then show ?thesis
    using assms(2) rests_evolves [OF assms(1)] carries_trans [OF rests_carries [OF assms(1)]] by (simp add: progresses_def)
qed

lemma progresses_refl [simp]: "progresses v v"
  by (simp add: progresses_def)

text \<open>A completed or cancelled task stays as it is while it exists, however often the table evolves.\<close>

lemma evolves_terminal:
  assumes "evolves v v'" "v k = Some t" "terminal (Status t)"
  shows "v' k = None \<or> (\<exists>t'. v' k = Some t' \<and> Status t' = Status t)"
  using assms by (force simp: evolves_def status_moves_def terminal_no_exit split: option.splits)

lemma progresses_terminal:
  assumes "progresses v v'" "v k = Some t" "terminal (Status t)"
  shows "\<exists>t'. v' k = Some t' \<and> Status t' = Status t"
  using assms evolves_terminal [of v v' k t] by (auto simp: progresses_def)

lemma progresses_identity:
  assumes "progresses v v'" "v k = Some t"
  shows "\<exists>t'. v' k = Some t' \<and> same_identity t t'"
  using assms by (fastforce simp: progresses_def evolves_def dest: spec [of _ k] split: option.splits)

locale task_repository =
  fixes repo :: "'r TaskRepository"
    and inv :: "'r world \<Rightarrow> bool"
    and key :: "'r world \<Rightarrow> TaskID \<Rightarrow> 'k option"
    and view :: "'r world \<Rightarrow> 'k \<Rightarrow> Task option"
    and stored :: "Task \<Rightarrow> Task \<Rightarrow> Task"
  assumes frame: "lib w' = lib w \<Longrightarrow> db w' = db w \<Longrightarrow>
        (inv w' \<longleftrightarrow> inv w) \<and> key w' = key w \<and> view w' = view w"
    and view_known: "inv w \<Longrightarrow> view w k = Some t \<Longrightarrow> known_status (Status t)"
    and key_unique: "inv w \<Longrightarrow> view w k = Some t \<Longrightarrow> view w k' = Some t' \<Longrightarrow>
        IdempotencyKey t = IdempotencyKey t' \<Longrightarrow> IdempotencyKey t \<noteq> [] \<Longrightarrow> k = k'"
    and create_law: "repo_Create repo t w = (rc, w') \<Longrightarrow> inv w \<Longrightarrow> known_status (Status t) \<Longrightarrow>
        inv w' \<and> key w' = key w \<and>
        (isl rc \<and> view w' = view w \<or>
         (\<exists>k t'. key w (ID t) = Some k \<and> view w k = None \<and> created_as t t' \<and>
           map (key w) (Dependencies t') = map (key w) (Dependencies t) \<and> view w' = (view w)(k \<mapsto> t')))"
    and get_frame: "repo_GetByID repo tid w = (rg, w') \<Longrightarrow> inv w \<Longrightarrow>
        inv w' \<and> key w' = key w \<and> view w' = view w"
    and get: "repo_GetByID repo tid w = (Inr t, w') \<Longrightarrow> inv w \<Longrightarrow>
        \<exists>k. key w tid = Some k \<and> view w k = Some t \<and> key w (ID t) = Some k"
    and find_frame: "repo_FindByIdempotencyKey repo ik w = (rf, w') \<Longrightarrow> inv w \<Longrightarrow>
        inv w' \<and> key w' = key w \<and> view w' = view w"
    and find: "repo_FindByIdempotencyKey repo ik w = (Inr t, w') \<Longrightarrow> inv w \<Longrightarrow>
        \<exists>k t'. key w (ID t) = Some k \<and> view w k = Some t' \<and> IdempotencyKey t' = ik \<and> ID t' = ID t"
    and update_law: "repo_UpdateTask repo tid m w = (ru, w') \<Longrightarrow> inv w \<Longrightarrow> lawful m \<Longrightarrow>
        inv w' \<and> key w' = key w \<and>
        (isl ru \<and> view w' = view w \<or>
         (\<exists>k t t' now. key w tid = Some k \<and> view w k = Some t \<and> m now t = Inr t' \<and>
           (isl ru \<or> ru = Inr t') \<and> view w' = (view w)(k \<mapsto> stored t t')))"
    and stored_identity: "same_identity t (stored t t')"
    and stored_fields: "Status (stored t t') = Status t' \<and> WorkerID (stored t t') = WorkerID t' \<and>
        LastError (stored t t') = LastError t' \<and> Result (stored t t') = Result t'"
    and stored_attempts: "fits_int32 (AttemptCount t') \<Longrightarrow> AttemptCount (stored t t') = AttemptCount t'"
    and heartbeat: "repo_Heartbeat repo tid wid w = (rh, w') \<Longrightarrow> inv w \<Longrightarrow>
        inv w' \<and> key w' = key w \<and>
        (view w' = view w \<or>
         (\<exists>k t at. key w tid = Some k \<and> view w k = Some t \<and> Status t = StatusRunning \<and>
            view w' = (view w)(k \<mapsto> t\<lparr>UpdatedAt := at, WorkerID := wid\<rparr>)))"
    and pick_law: "repo_PickAndMarkRunning repo n w = (rp, w') \<Longrightarrow> inv w \<Longrightarrow>
        inv w' \<and> key w' = key w \<and>
        (\<forall>k. view w' k = view w k \<or>
           (\<exists>t at. view w k = Some t \<and> Status t = StatusPending \<and>
              view w' k = Some (t\<lparr>Status := StatusRunning, UpdatedAt := at\<rparr>))) \<and>
        (\<forall>ts. rp = Inr ts \<longrightarrow>
           (\<forall>t' \<in> set ts. \<exists>k t. key w (ID t') = Some k \<and> view w k = Some t \<and> Status t = StatusPending))"
    and reset: "repo_ResetStuckRunning repo timeout w = (rr, w') \<Longrightarrow> inv w \<Longrightarrow>
        inv w' \<and> key w' = key w \<and>
        (\<forall>k. view w' k = view w k \<or>
           (\<exists>t at. view w k = Some t \<and> Status t = StatusRunning \<and>
              view w' k = Some (t\<lparr>Status := StatusPending, WorkerID := '''', UpdatedAt := at\<rparr>)))"
    and list_frame: "repo_List repo f w = (rl, w') \<Longrightarrow> inv w \<Longrightarrow>
        inv w' \<and> key w' = key w \<and> view w' = view w"
    and cleanup: "repo_CleanupExpired repo ttl w = (rr, w') \<Longrightarrow> inv w \<Longrightarrow>
        inv w' \<and> key w' = key w \<and>
        (\<forall>k. view w' k = None \<and> (\<forall>t. view w k = Some t \<longrightarrow> terminal (Status t)) \<or>
           (\<exists>t ds. view w k = Some t \<and> set ds \<subseteq> set (Dependencies t) \<and>
              view w' k = Some (t\<lparr>Dependencies := ds\<rparr>)))"
begin

text \<open>The laws of a call that succeeded.\<close>

lemma create:
  "repo_Create repo t w = (Inr x, w') \<Longrightarrow> inv w \<Longrightarrow> known_status (Status t) \<Longrightarrow>
     inv w' \<and> key w' = key w \<and>
     (\<exists>k t'. key w (ID t) = Some k \<and> view w k = None \<and> created_as t t' \<and>
        map (key w) (Dependencies t') = map (key w) (Dependencies t) \<and> view w' = (view w)(k \<mapsto> t'))"
  by (drule (2) create_law) simp

lemma update:
  "repo_UpdateTask repo tid m w = (Inr t', w') \<Longrightarrow> inv w \<Longrightarrow> lawful m \<Longrightarrow>
     inv w' \<and> key w' = key w \<and>
     (\<exists>k t now. key w tid = Some k \<and> view w k = Some t \<and> m now t = Inr t' \<and>
        view w' = (view w)(k \<mapsto> stored t t'))"
  by (drule (2) update_law) auto

text \<open>The task an update has stored, when it has stored one, whatever it returned.\<close>

lemma update_cases:
  assumes "repo_UpdateTask repo tid m w = (r, w')" "inv w" "lawful m"
  obtains (same) "isl r" "inv w'" "key w' = key w" "view w' = view w"
  | (stored) k t t' now where "inv w'" "key w' = key w" "key w tid = Some k" "view w k = Some t"
      "m now t = Inr t'" "view w' = (view w)(k \<mapsto> stored t t')"
  using update_law [OF assms] by blast

lemma update_evolves:
  assumes "repo_UpdateTask repo tid m w = (r, w')" "inv w" "lawful m"
  shows "inv w' \<and> key w' = key w \<and> evolves (view w) (view w')"
  using assms
proof (cases rule: update_cases)
  case (stored k t t' now)
  moreover have "status_moves (Status t) (Status (stored t t'))"
    using assms(3) stored(5) by (auto simp: stored_fields status_moves_def lawful_def)
  ultimately show ?thesis by (simp add: evolves_upd stored_identity)
qed simp

lemma update_carries:
  assumes "repo_UpdateTask repo tid m w = (r, w')" "inv w" "halting m"
  shows "carries (view w) (view w')"
proof -
  have m: "lawful m" "\<And>now t t'. m now t = Inr t' \<Longrightarrow> Status t' \<noteq> StatusRunning"
    using assms(3) by (auto simp: halting_def)
  from assms(1,2) m(1) show ?thesis
  proof (cases rule: update_cases)
    case (stored k t t' now)
    moreover have "status_moves (Status t) (Status (stored t t'))" "Status (stored t t') \<noteq> StatusRunning"
      using m stored(5) by (auto simp: stored_fields status_moves_def lawful_def)
    ultimately show ?thesis by (simp add: carries_upd stored_identity)
  qed simp
qed

lemma heartbeat_evolves:
  assumes "repo_Heartbeat repo tid wid w = (r, w')" "inv w"
  shows "inv w' \<and> key w' = key w \<and> evolves (view w) (view w')"
  using heartbeat [OF assms] by (auto intro!: evolves_upd simp: same_identity_def)

lemma heartbeat_carries:
  assumes "repo_Heartbeat repo tid wid w = (r, w')" "inv w"
  shows "carries (view w) (view w')"
  using heartbeat [OF assms] by (auto intro!: carries_upd simp: same_identity_def)

lemma pick_evolves:
  assumes "repo_PickAndMarkRunning repo n w = (r, w')" "inv w"
  shows "inv w' \<and> key w' = key w \<and> evolves (view w) (view w')"
proof -
  from pick_law [OF assms] have "inv w'" "key w' = key w" and v: "view w' k = view w k \<or>
      (\<exists>t at. view w k = Some t \<and> Status t = StatusPending \<and>
         view w' k = Some (t\<lparr>Status := StatusRunning, UpdatedAt := at\<rparr>))" for k
    by blast+
  moreover have "evolves (view w) (view w')"
    using v by (intro evolves_pointwise) (force simp: same_identity_def status_moves_def allowed_iff)
  ultimately show ?thesis by blast
qed

lemma reset_evolves:
  assumes "repo_ResetStuckRunning repo timeout w = (r, w')" "inv w"
  shows "inv w' \<and> key w' = key w \<and> evolves (view w) (view w')"
proof -
  from reset [OF assms] have "inv w'" "key w' = key w" and v: "view w' k = view w k \<or>
      (\<exists>t at. view w k = Some t \<and> Status t = StatusRunning \<and>
         view w' k = Some (t\<lparr>Status := StatusPending, WorkerID := '''', UpdatedAt := at\<rparr>))" for k
    by blast+
  moreover have "evolves (view w) (view w')"
    using v by (intro evolves_pointwise) (force simp: same_identity_def status_moves_def allowed_iff)
  ultimately show ?thesis by blast
qed

lemma reset_carries:
  assumes "repo_ResetStuckRunning repo timeout w = (r, w')" "inv w"
  shows "carries (view w) (view w')"
proof (rule carries_pointwise)
  fix k
  from reset [OF assms] have "view w' k = view w k \<or> (\<exists>t at. view w k = Some t \<and> Status t = StatusRunning \<and>
      view w' k = Some (t\<lparr>Status := StatusPending, WorkerID := [], UpdatedAt := at\<rparr>))" by blast
  then show "view w' k = None \<or> view w' k = view w k \<or>
     (\<exists>t t'. view w k = Some t \<and> view w' k = Some t' \<and> same_identity t t' \<and> status_moves (Status t) (Status t') \<and>
        (Status t' = Status t \<or> Status t' \<noteq> StatusRunning))"
    by (elim disjE exE conjE) (simp_all add: same_identity_def status_moves_def allowed_iff)
qed

lemma cleanup_cases:
  assumes "repo_CleanupExpired repo ttl w = (r, w')" "inv w"
  obtains (gone) "view w' k = None" "\<And>t. view w k = Some t \<Longrightarrow> terminal (Status t)"
  | (kept) t t' where "view w k = Some t" "view w' k = Some t'" "same_identity t t'" "Status t' = Status t"
proof -
  from cleanup [OF assms] have "view w' k = None \<and> (\<forall>t. view w k = Some t \<longrightarrow> terminal (Status t)) \<or>
      (\<exists>t ds. view w k = Some t \<and> set ds \<subseteq> set (Dependencies t) \<and> view w' k = Some (t\<lparr>Dependencies := ds\<rparr>))"
    by blast
  then show thesis using that by (auto simp: same_identity_def)
qed

lemma cleanup_evolves:
  assumes "repo_CleanupExpired repo ttl w = (r, w')" "inv w"
  shows "inv w' \<and> key w' = key w \<and> evolves (view w) (view w')"
proof -
  have "case view w k of None \<Rightarrow> (case view w' k of None \<Rightarrow> True | Some t' \<Rightarrow> Status t' = StatusPending)
     | Some t \<Rightarrow> (case view w' k of None \<Rightarrow> terminal (Status t)
         | Some t' \<Rightarrow> same_identity t t' \<and> status_moves (Status t) (Status t'))" for k
    by (rule cleanup_cases [OF assms, of k]) (auto split: option.splits)
  then show ?thesis using cleanup [OF assms] by (simp add: evolves_def)
qed

lemma cleanup_carries:
  assumes "repo_CleanupExpired repo ttl w = (r, w')" "inv w"
  shows "carries (view w) (view w')"
proof (rule carries_pointwise)
  fix k
  show "view w' k = None \<or> view w' k = view w k \<or>
     (\<exists>t t'. view w k = Some t \<and> view w' k = Some t' \<and> same_identity t t' \<and> status_moves (Status t) (Status t') \<and>
        (Status t' = Status t \<or> Status t' \<noteq> StatusRunning))"
    by (rule cleanup_cases [OF assms, of k]) auto
qed

lemma create_evolves:
  assumes "repo_Create repo t w = (r, w')" "inv w" "Status t = StatusPending"
  shows "inv w' \<and> key w' = key w \<and> evolves (view w) (view w')"
  using create_law [OF assms(1,2)] assms(3) by (auto simp: known_status_def created_as_def intro: evolves_new)

end

end
