(* ===== verification/Postgres_Contract.thy ===== *)
theory Postgres_Contract
  imports Postgres_Laws Repository_Contract
begin

text \<open>
  The PostgreSQL adapter satisfies the repository contract: the locale \<open>task_repository\<close> is
  interpreted on \<open>postgres_Repo\<close>, with the tables' abstract view, and every method keeps the
  invariant \<open>pg_inv\<close> (library contract, schema constraints, known statuses).
\<close>

subsection \<open>The view under the statements\<close>

lemma status_literals:
  "''pending'' = StatusPending" "''running'' = StatusRunning" "''completed'' = StatusCompleted"
  "''cancelled'' = StatusCancelled" "''failed'' = StatusFailed"
  by (simp_all add: status_defs)

lemma pg_frame:
  "lib w' = lib w \<Longrightarrow> db w' = db w \<Longrightarrow> (pg_inv w' \<longleftrightarrow> pg_inv w) \<and> key w' = key w \<and> view w' = view w"
  by (auto simp: pg_inv_def key_def view_def)

lemma stored_task_status [simp]: "Status (stored_task l d r) = r_status r"
  by (simp add: stored_task_def task_of_row_def)

lemma view_Some_iff:
  "view_db l d u = Some t \<longleftrightarrow> (\<exists>r. select_task u d = Some r \<and> t = stored_task l d r)"
  by (auto simp: view_db_def)

lemma schema_ok_D:
  "schema_ok d \<Longrightarrow> distinct (map r_id (tasks d))" "schema_ok d \<Longrightarrow> edges_ok d"
  "schema_ok d \<Longrightarrow> priorities_ok d"
  by (simp_all add: schema_ok_def ids_ok_def)

lemma select_task_iff:
  assumes "schema_ok d"
  shows "select_task u d = Some r \<longleftrightarrow> r \<in> set (tasks d) \<and> r_id r = u"
  unfolding select_task_def using schema_ok_D(1) [OF assms] by (rule find_Some_distinct)

lemma statuses_ok_update:
  assumes "statuses_ok d" "\<And>r. r \<in> set (tasks d) \<Longrightarrow> P r \<Longrightarrow> known_status (r_status (f r))"
  shows "statuses_ok (snd (update_where P f d))"
  using assms by (auto simp: statuses_ok_def)

lemma ucast_priority [simp]: "ucast (ucast (p :: 8 word) :: 16 word) = p"
  by (rule bit_word_eqI) (simp add: bit_simps)

lemma timestamptz_bounds: "timestamptz t \<le> t \<and> t < timestamptz t + 1000"
proof -
  have "t = timestamptz t + t mod 1000"
    by (simp add: timestamptz_def)
  moreover have "0 \<le> t mod 1000" "t mod 1000 < 1000" by simp_all
  ultimately show ?thesis by linarith
qed

lemma view_db_cong:
  assumes "select_task k d' = select_task k d" "select_deps k d' = select_deps k d"
  shows "view_db l d' k = view_db l d k"
  using assms select_task_id [of k d]
  by (cases "select_task k d") (simp_all add: view_db_def stored_task_def)

lemma view_after_create:
  assumes "schema_ok (db w)" "r_id row = u" "u \<notin> r_id ` set (tasks (db w))"
    and t': "tasks d' = tasks (db w) @ [row]"
    and e': "task_dependencies d' = task_dependencies (db w) @ map (Pair u) vs"
  shows "view_db l d' = (view_db l (db w))(u \<mapsto> (task_of_row l row)\<lparr>Dependencies := map (fromUUID l) vs\<rparr>)"
proof
  fix k
  have no_edge: "filter (\<lambda>e. fst e = u) (task_dependencies (db w)) = []"
    using schema_ok_D(2) [OF assms(1)] assms(3) by (force simp: edges_ok_def filter_empty_conv)
  show "view_db l d' k = ((view_db l (db w))(u \<mapsto> (task_of_row l row)\<lparr>Dependencies := map (fromUUID l) vs\<rparr>)) k"
  proof (cases "k = u")
    case True
    have "find (\<lambda>r. r_id r = u) (tasks (db w)) = None" using assms(3) by (simp add: find_None_key)
    then have "select_task u d' = Some row" using assms(2) by (simp add: select_task_def t' find_append)
    moreover have "select_deps u d' = vs" by (simp add: select_deps_def e' no_edge filter_map o_def)
    ultimately show ?thesis using True assms(2) by (simp add: view_db_def stored_task_def)
  next
    case False
    then have "select_task k d' = select_task k (db w)"
      using assms(2) by (simp add: select_task_def t' find_append split: option.splits)
    moreover have "select_deps k d' = select_deps k (db w)"
      using False by (simp add: select_deps_def e' filter_map o_def)
    ultimately have "view_db l d' k = view_db l (db w) k" by (rule view_db_cong)
    with False show ?thesis by simp
  qed
qed

lemma created_as_row:
  "created_as t ((task_of_row l (row_of_task u t))\<lparr>Dependencies := map (fromUUID l) vs\<rparr>)"
  using timestamptz_bounds [of "ScheduledAt t"]
  by (simp add: created_as_def task_of_row_def row_of_task_def int32_round_trip)

lemma statuses_ok_append: "tasks d' = tasks d @ [r] \<Longrightarrow> statuses_ok d \<Longrightarrow> known_status (r_status r) \<Longrightarrow> statuses_ok d'"
  by (auto simp: statuses_ok_def)

lemma key_eq: "lib w' = lib w \<Longrightarrow> key w' = key w"
  by (rule ext) (simp add: key_def)

lemma key_fromUUID [simp]: "uuid_ok (lib w) \<Longrightarrow> key w (fromUUID (lib w) u) = Some u"
  by (simp add: key_def fromUUID_def uuid_ok_def)

lemma pg_create:
  assumes "Create t w = (Inr x, w')" "pg_inv w" "known_status (Status t)"
  shows "pg_inv w' \<and> key w' = key w \<and>
        (\<exists>k t'. key w (ID t) = Some k \<and> view w k = None \<and> created_as t t' \<and>
           map (key w) (Dependencies t') = map (key w) (Dependencies t) \<and> view w' = (view w)(k \<mapsto> t'))"
  using assms(1)
proof (rule Create_Inr)
  fix u d1 vs
  assume u: "uuid_Parse (lib w) (ID t) = Inr u" and i: "insert_task (row_of_task u t) (db w) = Inr d1"
    and vs: "list_all2 (\<lambda>x v. uuid_Parse (lib w) x = Inr v) (Dependencies t) vs"
    and t': "tasks (db w') = tasks (db w) @ [row_of_task u t]"
    and e': "task_dependencies (db w') = task_dependencies (db w) @ map (Pair u) vs"
    and s: "schema_ok (db w) \<Longrightarrow> schema_ok (db w')" and l: "lib w' = lib w"
  have id: "r_id (row_of_task u t) = u" by (simp add: row_of_task_def)
  with i have new: "u \<notin> r_id ` set (tasks (db w))" by (simp add: insert_task_Inr_iff)
  have "pg_inv w'"
    using assms(2,3) s l statuses_ok_append [OF t'] by (simp add: pg_inv_def row_of_task_def)
  moreover have "view w u = None"
    using new by (simp add: view_def view_db_def select_task_def find_None_key)
  moreover have "view w' = (view w)(u \<mapsto> (task_of_row (lib w) (row_of_task u t))\<lparr>Dependencies := map (fromUUID (lib w)) vs\<rparr>)"
    using view_after_create [OF _ id new t' e'] assms(2) l by (simp add: view_def pg_inv_def)
  moreover have "key w (ID t) = Some u" by (simp add: key_def u)
  moreover have "map (key w) (Dependencies t) = map Some vs"
    using vs by (induction rule: list_all2_induct) (simp_all add: key_def)
  then have "map (key w) (Dependencies ((task_of_row (lib w) (row_of_task u t))\<lparr>Dependencies := map (fromUUID (lib w)) vs\<rparr>))
      = map (key w) (Dependencies t)"
    using assms(2) by (simp add: pg_inv_def)
  ultimately show ?thesis using created_as_row [of t "lib w" vs u] key_eq [OF l] by blast
qed

lemma stored_task_id: "uuid_ok l \<Longrightarrow> uuid_Parse l (ID (stored_task l d r)) = Inr (r_id r)"
  by (simp add: stored_task_def task_of_row_def fromUUID_def uuid_ok_def)

lemma view_key:
  assumes "pg_inv w" "view w k = Some t"
  shows "key w (ID t) = Some k"
proof -
  obtain r where "t = stored_task (lib w) (db w) r" "r_id r = k"
    using assms(2) select_task_id by (fastforce simp: view_def view_db_def)
  then show ?thesis using assms(1) stored_task_id [of "lib w" "db w" r] by (auto simp: key_def pg_inv_def)
qed

lemma pg_get:
  assumes "GetByID tid w = (Inr t, w')" "pg_inv w"
  shows "\<exists>k. key w tid = Some k \<and> view w k = Some t \<and> key w (ID t) = Some k"
proof -
  from GetByID_Inr [OF assms(1)] obtain u where u: "key w tid = Some u" "view w u = Some t" by blast
  then obtain r where "select_task u (db w) = Some r" "t = stored_task (lib w) (db w) r"
    by (auto simp: view_def view_db_def)
  with assms(2) have "key w (ID t) = Some u"
    by (auto simp: key_def pg_inv_def stored_task_id dest: select_task_id)
  with u show ?thesis by blast
qed

lemma pg_find:
  assumes "FindByIdempotencyKey ik w = (Inr t, w')" "pg_inv w"
  shows "\<exists>k t'. key w (ID t) = Some k \<and> view w k = Some t' \<and> IdempotencyKey t' = ik \<and> ID t' = ID t"
proof -
  from FindByIdempotencyKey_Inr [OF assms(1)] obtain r
    where r: "r \<in> set (tasks (db w))" "r_idempotency_key r = Some ik" "t = task_of_row (lib w) r" by blast
  from assms(2) r(1) have "select_task (r_id r) (db w) = Some r"
    by (simp add: select_task_iff pg_inv_def)
  moreover have "ID t = ID (stored_task (lib w) (db w) r)"
    using r by (simp add: stored_task_def)
  moreover have "IdempotencyKey (stored_task (lib w) (db w) r) = ik"
    using r by (simp add: stored_task_def task_of_row_def text_or_empty_def)
  ultimately show ?thesis
    using assms(2) by (auto simp: view_def view_Some_iff key_def pg_inv_def stored_task_id)
qed

lemma pg_update:
  assumes "UpdateTask tid m w = (Inr t', w')" "pg_inv w" "lawful m"
  shows "pg_inv w' \<and> key w' = key w \<and>
        (\<exists>k t now. key w tid = Some k \<and> view w k = Some t \<and> m now t = Inr t' \<and>
           view w' = (view w)(k \<mapsto> persisted t t'))"
  using assms(1)
proof (rule UpdateTask_Inr)
  fix u t now
  assume u: "key w tid = Some u" and v: "view w u = Some t" and m: "m now t = Inr t'"
    and d: "db w' = update_task u t' (db w)" and l: "lib w' = lib w"
  from m assms(3) have "known_status (Status t')" by (auto simp: lawful_def dest: allowed_known)
  then have "statuses_ok (db w')"
    using assms(2) unfolding d update_task_def pg_inv_def
    by (intro statuses_ok_update) (auto simp: set_columns_def)
  then have "pg_inv w'" using assms(2) l schema_ok_update_task by (auto simp: pg_inv_def d)
  moreover have "view w' = (view w)(u \<mapsto> persisted t t')"
    using v by (auto simp: view_def l d view_update_task)
  ultimately show ?thesis using u v m key_eq [OF l] by metis
qed

text \<open>An \<^verbatim>\<open>UPDATE\<close> of the life-cycle columns keeps the invariant and shows in the view row by row.\<close>

lemma pg_inv_update:
  assumes "pg_inv w" and d: "db w' = snd (update_where P f (db w))" and l: "lib w' = lib w"
    and f: "\<And>r. r_id (f r) = r_id r" "\<And>r. r_priority (f r) = r_priority r"
      "\<And>r. r_idempotency_key (f r) = r_idempotency_key r"
    and s: "\<And>r. P r \<Longrightarrow> known_status (r_status r) \<Longrightarrow> known_status (r_status (f r))"
  shows "pg_inv w' \<and> key w' = key w"
proof -
  have "schema_ok (db w')"
    unfolding d using assms(1) by (intro schema_ok_update f) (simp add: pg_inv_def)
  moreover have "statuses_ok (db w')"
    unfolding d using assms(1) by (intro statuses_ok_update s) (auto simp: pg_inv_def statuses_ok_def)
  ultimately show ?thesis using assms(1) l key_eq [OF l] by (simp add: pg_inv_def)
qed

lemma view_update_row:
  assumes d: "db w' = snd (update_where P f (db w))" and l: "lib w' = lib w"
    and f: "\<And>r. r_id (f r) = r_id r"
  shows "view w' k = view w k \<or>
     (\<exists>r. select_task k (db w) = Some r \<and> P r \<and> view w k = Some (stored_task (lib w) (db w) r) \<and>
        view w' k = Some (stored_task (lib w) (db w) (f r)))"
  unfolding view_def d l view_update_where [OF f]
  by (cases "select_task k (db w)") (auto simp: view_db_def)

lemma known_statuses [simp]:
  "known_status StatusPending" "known_status StatusRunning" "known_status StatusCompleted"
  "known_status StatusFailed" "known_status StatusCancelled"
  by (simp_all add: known_status_def)

lemma pool_Exec_db:
  "pool_Exec s w = (r, w') \<Longrightarrow> lib w' = lib w \<and> (db w' = db w \<and> isl r \<or> db w' = snd (s (db w)))"
  by (cases r) (auto simp: pool_Exec_def install_Inr install_Inl)

lemma Heartbeat_db:
  assumes "Heartbeat tid wid w = (r, w')"
  shows "lib w' = lib w \<and> (db w' = db w \<or>
     (\<exists>u now. key w tid = Some u \<and>
        db w' = snd (update_where (\<lambda>r. r_id r = u \<and> r_status r = ''running'')
          (\<lambda>r. r\<lparr>r_updated_at := now, r_worker_id := Some wid\<rparr>) (db w))))"
proof -
  from assms consider "w' = w" | u where "toUUID tid w = (Inr u, w)"
      "snd (pool_Exec (update_where (\<lambda>r. r_id r = u \<and> r_status r = ''running'')
          (\<lambda>r. r\<lparr>r_updated_at := timestamptz (clock w 0), r_worker_id := Some wid\<rparr>))
            (w\<lparr>clock := shift (clock w)\<rparr>)) = w'"
    by (cases "uuid_Parse (lib w) tid")
      (auto simp: Heartbeat_def andThen_iff onError_iff toUUID_def with_lib_def split: if_splits)
  then show ?thesis
  proof cases
    case 1
    then show ?thesis by simp
  next
    case (2 u)
    have "key w tid = Some u" using 2(1) by (simp add: toUUID_Inr_iff key_def)
    then show ?thesis
      using 2(2) pool_Exec_db [OF prod.collapse [symmetric], of "update_where (\<lambda>r. r_id r = u \<and> r_status r = ''running'')
          (\<lambda>r. r\<lparr>r_updated_at := timestamptz (clock w 0), r_worker_id := Some wid\<rparr>)" "w\<lparr>clock := shift (clock w)\<rparr>"]
      by auto
  qed
qed

lemma pg_heartbeat:
  assumes "Heartbeat tid wid w = (rh, w')" "pg_inv w"
  shows "pg_inv w' \<and> key w' = key w \<and>
        (view w' = view w \<or>
         (\<exists>k t at. key w tid = Some k \<and> view w k = Some t \<and> Status t = StatusRunning \<and>
            view w' = (view w)(k \<mapsto> t\<lparr>UpdatedAt := at, WorkerID := wid\<rparr>)))"
proof -
  from Heartbeat_db [OF assms(1)] consider "lib w' = lib w" "db w' = db w"
    | u now where "lib w' = lib w" "key w tid = Some u"
      "db w' = snd (update_where (\<lambda>r. r_id r = u \<and> r_status r = ''running'')
          (\<lambda>r. r\<lparr>r_updated_at := now, r_worker_id := Some wid\<rparr>) (db w))" by blast
  then show ?thesis
  proof cases
    case 1
    then show ?thesis using pg_frame assms(2) by metis
  next
    case (2 u now)
    let ?f = "\<lambda>r. r\<lparr>r_updated_at := now, r_worker_id := Some wid\<rparr>"
    have inv: "pg_inv w' \<and> key w' = key w"
      by (rule pg_inv_update [OF assms(2) 2(3,1)]) simp_all
    have row: "view w' k = view w k \<or> (k = u \<and> (\<exists>t. view w k = Some t \<and> Status t = StatusRunning \<and>
        view w' k = Some (t\<lparr>UpdatedAt := now, WorkerID := wid\<rparr>)))" for k
      using view_update_row [OF 2(3,1), of k] select_task_id [of k "db w"]
      by (auto simp: status_literals) (auto simp: stored_task_def task_of_row_def text_or_empty_def)
    have upd: "view w' = (view w)(u := view w' u)"
    proof
      fix k
      show "view w' k = ((view w)(u := view w' u)) k" using row [of k] by (cases "k = u") simp_all
    qed
    from row [of u] show ?thesis
    proof
      assume "view w' u = view w u"
      with upd inv show ?thesis by simp
    next
      assume "u = u \<and> (\<exists>t. view w u = Some t \<and> Status t = StatusRunning \<and>
        view w' u = Some (t\<lparr>UpdatedAt := now, WorkerID := wid\<rparr>))"
      then obtain t where t: "view w u = Some t" "Status t = StatusRunning"
        "view w' u = Some (t\<lparr>UpdatedAt := now, WorkerID := wid\<rparr>)" by blast
      with upd have "view w' = (view w)(u \<mapsto> t\<lparr>UpdatedAt := now, WorkerID := wid\<rparr>)" by simp
      with t 2(2) inv show ?thesis by blast
    qed
  qed
qed

lemma select_ready_subset:
  "select_ready lk now n d = Inr rows \<Longrightarrow> r \<in> set rows \<Longrightarrow> r \<in> set (tasks d) \<and> ready now d r \<and> \<not> lk (r_id r)"
  by (auto simp: select_ready_def split: if_splits dest!: in_set_takeD)

lemma pg_pick:
  assumes "PickAndMarkRunning n w = (Inr ts, w')" "pg_inv w"
  shows "pg_inv w' \<and> key w' = key w \<and>
        (\<forall>k. view w' k = view w k \<or>
           (\<exists>t at. view w k = Some t \<and> Status t = StatusPending \<and>
              view w' k = Some (t\<lparr>Status := StatusRunning, UpdatedAt := at\<rparr>))) \<and>
        (\<forall>t' \<in> set ts. \<exists>k t. key w (ID t') = Some k \<and> view w k = Some t \<and> Status t = StatusPending)"
proof -
  have ok: "uuid_ok (lib w)" "schema_ok (db w)" using assms(2) by (simp_all add: pg_inv_def)
  from assms(1) ok(1) show ?thesis
  proof (rule PickAndMarkRunning_Inr)
    fix rows now
    let ?f = "\<lambda>r. r\<lparr>r_status := ''running'', r_updated_at := timestamptz now\<rparr>"
    assume s: "select_ready (locked w) (timestamptz (clock w 0)) (int32_of_int n) (db w) = Inr rows"
      and ts: "ts = map (\<lambda>r. (stored_task (lib w) (db w) r)\<lparr>Status := StatusRunning, UpdatedAt := now\<rparr>) rows"
      and d: "db w' = snd (update_where (\<lambda>r. r_id r \<in> r_id ` set rows) ?f (db w))" and l: "lib w' = lib w"
    have row: "r \<in> set (tasks (db w)) \<and> r_status r = StatusPending" if "r \<in> set rows" for r
      using select_ready_subset [OF s that] by (simp add: ready_def status_literals)
    have inv: "pg_inv w' \<and> key w' = key w"
      by (rule pg_inv_update [OF assms(2) d l]) (simp_all add: status_literals)
    have picked: "r_status r = StatusPending" if "select_task k (db w) = Some r" "r_id r \<in> r_id ` set rows" for k r
      using that row ok(2) by (metis (no_types, lifting) imageE select_task_iff option.inject)
    have v: "view w' k = view w k \<or>
           (\<exists>t at. view w k = Some t \<and> Status t = StatusPending \<and>
              view w' k = Some (t\<lparr>Status := StatusRunning, UpdatedAt := at\<rparr>))" for k
      using view_update_row [OF d l, of k] picked
      by (force simp: stored_task_def task_of_row_def status_literals)
    have "\<exists>k t. key w (ID t') = Some k \<and> view w k = Some t \<and> Status t = StatusPending"
      if "t' \<in> set ts" for t'
    proof -
      from that ts obtain r where r: "r \<in> set rows" "ID t' = ID (stored_task (lib w) (db w) r)" by auto
      then have "select_task (r_id r) (db w) = Some r" using row ok(2) by (simp add: select_task_iff)
      then show ?thesis
        using r row ok(1) by (force simp: key_def stored_task_id view_def view_db_def)
    qed
    then show ?thesis using inv v by blast
  qed
qed

text \<open>
  A call has done nothing, or what the call that succeeds does, in a world that differs in the
  outcomes of the driver only.
\<close>

lemma outcome_cases:
  assumes "all_or_nothing m" "keeps lib m" "m w = (r, w')"
  obtains (nothing) "isl r" "lib w' = lib w" "db w' = db w"
  | (all) a v w1 where "m v = (Inr a, w1)" "db v = db w" "lib v = lib w" "clock v = clock w" "locked v = locked w"
      "lib w' = lib w1" "db w' = db w1" "isl r \<or> r = Inr a"
proof (cases r)
  case (Inr a)
  with assms(3) show thesis by (intro that(2) [of w a w']) simp_all
next
  case (Inl e)
  have l: "lib w' = lib w" by (rule keepsD [OF assms(2,3)])
  from assms(1,3) Inl have "db w' = db w \<or> (\<exists>a w1. m (confirmed w) = (Inr a, w1) \<and> db w1 = db w')"
    by (simp add: all_or_nothing_def)
  then show thesis
  proof (elim disjE exE conjE)
    assume "db w' = db w"
    with l Inl show thesis by (intro that(1)) simp_all
  next
    fix a w1
    assume c: "m (confirmed w) = (Inr a, w1)" "db w1 = db w'"
    with l keepsD [OF assms(2) c(1)] Inl show thesis by (intro that(2) [OF c(1)]) simp_all
  qed
qed

lemma pg_create_law:
  assumes "Create t w = (r, w')" "pg_inv w" "known_status (Status t)"
  shows "pg_inv w' \<and> key w' = key w \<and>
     (isl r \<and> view w' = view w \<or>
      (\<exists>k t'. key w (ID t) = Some k \<and> view w k = None \<and> created_as t t' \<and>
         map (key w) (Dependencies t') = map (key w) (Dependencies t) \<and> view w' = (view w)(k \<mapsto> t')))"
  using repo_all_or_nothing(1) keeps_lib_repo(1) assms(1)
proof (cases rule: outcome_cases)
  case nothing
  then show ?thesis using pg_frame [of w' w] assms(2) by simp
next
  case (all a v w1)
  have v: "pg_inv v" "key v = key w" "view v = view w" using pg_frame [OF all(3,2)] assms(2) by simp_all
  from pg_create [OF all(1) v(1) assms(3)] show ?thesis
    unfolding v using pg_frame [OF all(6,7)] by simp
qed

lemma pg_update_law:
  assumes "UpdateTask tid m w = (r, w')" "pg_inv w" "lawful m"
  shows "pg_inv w' \<and> key w' = key w \<and>
     (isl r \<and> view w' = view w \<or>
      (\<exists>k t t' now. key w tid = Some k \<and> view w k = Some t \<and> m now t = Inr t' \<and>
         (isl r \<or> r = Inr t') \<and> view w' = (view w)(k \<mapsto> persisted t t')))"
  using repo_all_or_nothing(3) keeps_lib_repo(3) assms(1)
proof (cases rule: outcome_cases)
  case nothing
  then show ?thesis using pg_frame [of w' w] assms(2) by simp
next
  case (all a v w1)
  have v: "pg_inv v" "key v = key w" "view v = view w" using pg_frame [OF all(3,2)] assms(2) by simp_all
  from pg_update [OF all(1) v(1) assms(3)] obtain k t now where u: "pg_inv w1" "key w1 = key w" "key w tid = Some k"
    "view w k = Some t" "m now t = Inr a" "view w1 = (view w)(k \<mapsto> persisted t a)" unfolding v by blast
  have "pg_inv w'" "key w' = key w" "view w' = (view w)(k \<mapsto> persisted t a)"
    using pg_frame [OF all(6,7)] u(1,2,6) by simp_all
  with u(3-5) all(8) show ?thesis by blast
qed

lemma pg_pick_law:
  assumes "PickAndMarkRunning n w = (r, w')" "pg_inv w"
  shows "pg_inv w' \<and> key w' = key w \<and>
     (\<forall>k. view w' k = view w k \<or>
        (\<exists>t at. view w k = Some t \<and> Status t = StatusPending \<and>
           view w' k = Some (t\<lparr>Status := StatusRunning, UpdatedAt := at\<rparr>))) \<and>
     (\<forall>ts. r = Inr ts \<longrightarrow>
        (\<forall>t' \<in> set ts. \<exists>k t. key w (ID t') = Some k \<and> view w k = Some t \<and> Status t = StatusPending))"
  using repo_all_or_nothing(4) keeps_lib_repo(4) assms(1)
proof (cases rule: outcome_cases)
  case nothing
  then show ?thesis using pg_frame [of w' w] assms(2) by auto
next
  case (all a v w1)
  have v: "pg_inv v" "key v = key w" "view v = view w" using pg_frame [OF all(3,2)] assms(2) by simp_all
  from pg_pick [OF all(1) v(1)] show ?thesis
    unfolding v using pg_frame [OF all(6,7)] all(8) by auto
qed

lemma pg_reads:
  "keeps db m \<Longrightarrow> keeps lib m \<Longrightarrow> m w = (r, w') \<Longrightarrow> pg_inv w \<Longrightarrow>
     pg_inv w' \<and> key w' = key w \<and> view w' = view w"
  using pg_frame [of w' w] by (auto dest: keepsD)

lemma keeps_List_driver:
  assumes "keeps g driver" "keeps g (next_ties :: (go_error, uuid \<Rightarrow> nat, 'r world) op)"
  shows "keeps g (List_tasks f)"
proof -
  have page: "keeps g (\<lambda>w. tx_Exec stmt (db w) w)" for stmt :: "database \<Rightarrow> go_error + task_row list"
    using keeps_tx_Exec [OF assms(1), of stmt] by (simp add: keeps_def)
  have count: "keeps g (\<lambda>w. (Inr (n w), w))" for n :: "'r world \<Rightarrow> nat" by (simp add: keeps_def)
  show ?thesis
    unfolding List_tasks_def Let_def
    by (intro keeps_andThen keeps_onError [THEN iffD2] keeps_mapM page count assms keeps_scanTask [OF assms(1)] keeps_ret)
qed

lemma keeps_List [simp]: "keeps db (List_tasks f)" "keeps lib (List_tasks f)"
  by (simp_all add: keeps_List_driver)

lemma pg_reset:
  assumes "ResetStuckRunning timeout w = (rr, w')" "pg_inv w"
  shows "pg_inv w' \<and> key w' = key w \<and>
        (\<forall>k. view w' k = view w k \<or>
           (\<exists>t at. view w k = Some t \<and> Status t = StatusRunning \<and>
              view w' k = Some (t\<lparr>Status := StatusPending, WorkerID := '''', UpdatedAt := at\<rparr>)))"
proof -
  from assms(1) obtain th now r1 v where p: "pool_Exec (update_where (stuck th)
          (\<lambda>r. r\<lparr>r_status := ''pending'', r_worker_id := None, r_updated_at := now\<rparr>)) v = (r1, w')"
    and v: "db v = db w" "lib v = lib w"
    by (auto simp: ResetStuckRunning_def Let_def andThen_iff onError_iff)
  from pool_Exec_db [OF p] v consider "lib w' = lib w" "db w' = db w" | "lib w' = lib w"
    "db w' = snd (update_where (stuck th)
          (\<lambda>r. r\<lparr>r_status := ''pending'', r_worker_id := None, r_updated_at := now\<rparr>) (db w))" by auto
  then show ?thesis
  proof cases
    case 1
    then show ?thesis using pg_frame [of w' w] assms(2) by auto
  next
    case 2
    have inv: "pg_inv w' \<and> key w' = key w"
      by (rule pg_inv_update [OF assms(2) 2(2,1)]) (simp_all add: status_literals)
    have "view w' k = view w k \<or>
           (\<exists>t at. view w k = Some t \<and> Status t = StatusRunning \<and>
              view w' k = Some (t\<lparr>Status := StatusPending, WorkerID := '''', UpdatedAt := at\<rparr>))" for k
      using view_update_row [OF 2(2,1), of k]
      by (force simp: stored_task_def task_of_row_def status_literals stuck_def text_or_empty_def)
    with inv show ?thesis by blast
  qed
qed

lemma select_task_delete:
  assumes "distinct (map r_id (tasks d))"
  shows "select_task u (snd (delete_where P d)) =
     (case select_task u d of None \<Rightarrow> None | Some r \<Rightarrow> if P r then None else Some r)"
  using assms unfolding select_task_def delete_where_def Let_def
  by (auto simp: find_None_key find_Some_distinct distinct_map_filter_key split: option.splits)
    (metis eq_key_imp_eq_value map_of_eq_None_iff distinct_map inj_onD)+

lemma select_deps_delete: "set (select_deps u (snd (delete_where P d))) \<subseteq> set (select_deps u d)"
  by (auto simp: select_deps_def delete_where_def Let_def)

lemma pg_cleanup:
  assumes "CleanupExpired ttl w = (rr, w')" "pg_inv w"
  shows "pg_inv w' \<and> key w' = key w \<and>
        (\<forall>k. view w' k = None \<and> (\<forall>t. view w k = Some t \<longrightarrow> terminal (Status t)) \<or>
           (\<exists>t ds. view w k = Some t \<and> set ds \<subseteq> set (Dependencies t) \<and>
              view w' k = Some (t\<lparr>Dependencies := ds\<rparr>)))"
proof -
  from assms(1) obtain th r1 v where p: "pool_Exec (delete_where (expired th)) v = (r1, w')"
    and v: "db v = db w" "lib v = lib w"
    by (auto simp: CleanupExpired_def Let_def andThen_iff onError_iff)
  from pool_Exec_db [OF p] v consider "lib w' = lib w" "db w' = db w" | "lib w' = lib w"
    "db w' = snd (delete_where (expired th) (db w))" by auto
  then show ?thesis
  proof cases
    case 1
    then have same: "pg_inv w'" "key w' = key w" "view w' = view w" using pg_frame [of w' w] assms(2) by simp_all
    have "view w k = None \<and> (\<forall>t. view w k = Some t \<longrightarrow> terminal (Status t)) \<or>
        (\<exists>t ds. view w k = Some t \<and> set ds \<subseteq> set (Dependencies t) \<and>
           view w k = Some (t\<lparr>Dependencies := ds\<rparr>))" for k
      by (cases "view w k") (auto intro!: exI [of _ "Dependencies _"])
    with same show ?thesis by simp
  next
    case 2
    have ok: "schema_ok (db w)" "statuses_ok (db w)" using assms(2) by (simp_all add: pg_inv_def)
    have "statuses_ok (db w')"
      using ok(2) by (simp add: 2(2) statuses_ok_def delete_where_def Let_def)
    then have inv: "pg_inv w' \<and> key w' = key w"
      using assms(2) 2 schema_ok_delete [OF ok(1)] key_eq [OF 2(1)] by (simp add: pg_inv_def)
    have row: "terminal (r_status r)" if "expired th r" for r
      using that by (auto simp: expired_def terminal_def status_literals)
    have "view w' k = None \<and> (\<forall>t. view w k = Some t \<longrightarrow> terminal (Status t)) \<or>
           (\<exists>t ds. view w k = Some t \<and> set ds \<subseteq> set (Dependencies t) \<and>
              view w' k = Some (t\<lparr>Dependencies := ds\<rparr>))" for k
    proof (cases "select_task k (db w)")
      case None
      then show ?thesis
        by (simp add: view_def 2 view_db_def select_task_delete [OF schema_ok_D(1) [OF ok(1)]])
    next
      case (Some r)
      let ?ds = "map (fromUUID (lib w)) (select_deps k (snd (delete_where (expired th) (db w))))"
      have v: "view w k = Some (stored_task (lib w) (db w) r)" using Some by (simp add: view_def view_db_def)
      have "view w' k = (if expired th r then None else Some ((stored_task (lib w) (db w) r)\<lparr>Dependencies := ?ds\<rparr>))"
        using Some select_task_id [OF Some]
        by (simp add: view_def 2 view_db_def stored_task_def select_task_delete [OF schema_ok_D(1) [OF ok(1)]])
      moreover have "set ?ds \<subseteq> set (Dependencies (stored_task (lib w) (db w) r))"
        using select_deps_delete [of k "expired th" "db w"] select_task_id [OF Some] by (auto simp: stored_task_def)
      ultimately show ?thesis using v row [of r] by (cases "expired th r") (simp, metis)
    qed
    with inv show ?thesis by blast
  qed
qed

subsection \<open>The contract\<close>

lemma postgres_Repo_simps [simp]:
  "repo_Create postgres_Repo = Create" "repo_GetByID postgres_Repo = GetByID"
  "repo_FindByIdempotencyKey postgres_Repo = FindByIdempotencyKey"
  "repo_UpdateTask postgres_Repo = UpdateTask" "repo_Heartbeat postgres_Repo = Heartbeat"
  "repo_PickAndMarkRunning postgres_Repo = PickAndMarkRunning"
  "repo_ResetStuckRunning postgres_Repo = ResetStuckRunning"
  "repo_List postgres_Repo = List_tasks" "repo_CleanupExpired postgres_Repo = CleanupExpired"
  by (simp_all add: postgres_Repo_def)

lemma persisted_fields [simp]:
  "Status (persisted t t') = Status t'" "WorkerID (persisted t t') = WorkerID t'"
  "LastError (persisted t t') = LastError t'" "Result (persisted t t') = Result t'"
  by (simp_all add: persisted_def)

lemma persisted_identity: "same_identity t (persisted t t')"
  by (simp add: persisted_def same_identity_def)

lemma persisted_attempts: "fits_int32 (AttemptCount t') \<Longrightarrow> AttemptCount (persisted t t') = AttemptCount t'"
  by (simp add: persisted_def int32_round_trip)

lemma pg_view_known: "pg_inv w \<Longrightarrow> view w k = Some t \<Longrightarrow> known_status (Status t)"
  by (auto simp: pg_inv_def statuses_ok_def view_def view_db_def dest: select_task_id)

lemma keys_ok_unique:
  assumes "keys_ok d" "r \<in> set (tasks d)" "r' \<in> set (tasks d)"
    "r_idempotency_key r = Some k" "r_idempotency_key r' = Some k"
  shows "r = r'"
  using assms by (auto simp: keys_ok_def distinct_map inj_on_def)

lemma text_or_empty_Some: "text_or_empty x \<noteq> [] \<Longrightarrow> x = Some (text_or_empty x)"
  by (cases x) (auto simp: text_or_empty_def)

lemma pg_key_unique:
  assumes "pg_inv w" "view w k = Some t" "view w k' = Some t'" "IdempotencyKey t = IdempotencyKey t'"
    "IdempotencyKey t \<noteq> []"
  shows "k = k'"
proof -
  from assms(2,3) obtain r r' where r: "select_task k (db w) = Some r" "t = stored_task (lib w) (db w) r"
    "select_task k' (db w) = Some r'" "t' = stored_task (lib w) (db w) r'"
    by (auto simp: view_def view_db_def)
  with assms(4,5) have "r_idempotency_key r = Some (IdempotencyKey t)" "r_idempotency_key r' = Some (IdempotencyKey t)"
    using text_or_empty_Some [of "r_idempotency_key r"] text_or_empty_Some [of "r_idempotency_key r'"]
    by (simp_all add: stored_task_def task_of_row_def)
  then have "r = r'"
    using assms(1) r select_task_id keys_ok_unique [of "db w" r r'] by (simp add: pg_inv_def schema_ok_def)
  then show ?thesis using r select_task_id by metis
qed

interpretation pg: task_repository postgres_Repo pg_inv key view persisted
  by (unfold_locales; (unfold postgres_Repo_simps)?)
    (fact pg_frame pg_view_known pg_key_unique pg_create_law
      pg_reads [OF keeps_db_GetByID keeps_lib_repo(2)] pg_get
      pg_reads [OF keeps_FindByIdempotencyKey keeps_FindByIdempotencyKey, OF keeps_driver(1,2)] pg_find
      pg_update_law
      persisted_identity persisted_attempts pg_heartbeat
      pg_pick_law pg_reset
      pg_reads [OF keeps_List] pg_cleanup | simp)+

lemma update_none: "fst (update_where P f d) = 0 \<Longrightarrow> snd (update_where P f d) = d"
proof -
  have "map (\<lambda>r. if P r then f r else r) ts = ts" if "filter P ts = []" for ts
    using that by (induction ts) (auto split: if_splits)
  then show "fst (update_where P f d) = 0 \<Longrightarrow> snd (update_where P f d) = d"
    by (simp add: update_where_def)
qed

lemma Heartbeat_all_or_nothing: "all_or_nothing (Heartbeat tid wid)"
  unfolding Heartbeat_def
proof (rule all_or_nothing_andThen)
  fix uid
  let ?P = "\<lambda>r. r_id r = uid \<and> r_status r = ''running''"
  let ?f = "\<lambda>now r. r\<lparr>r_updated_at := now, r_worker_id := Some wid\<rparr>"
  let ?k = "\<lambda>n. if n = 0 then fail (errorf ''postgres: heartbeat: '' ErrNotFound) else ret ()"
  show "all_or_nothing (andThen (onError (errorf ''postgres: heartbeat: '')
       (andThen sql_NOW (\<lambda>now. pool_Exec (update_where ?P (?f now))))) ?k)"
    unfolding all_or_nothing_def
  proof (intro allI impI)
    fix w e w'
    assume "andThen (onError (errorf ''postgres: heartbeat: '')
       (andThen sql_NOW (\<lambda>now. pool_Exec (update_where ?P (?f now))))) ?k w = (Inl e, w')"
    then show "db w' = db w \<or> (\<exists>a w''. andThen (onError (errorf ''postgres: heartbeat: '')
       (andThen sql_NOW (\<lambda>now. pool_Exec (update_where ?P (?f now))))) ?k (confirmed w) = (Inr a, w'') \<and> db w'' = db w')"
      using update_none [of ?P "?f (timestamptz (clock w 0))" "db w"]
      by (cases "fst (update_where ?P (?f (timestamptz (clock w 0))) (db w)) = 0")
        (auto simp: andThen_Inl_iff andThen_Inr_iff onError_Inl_iff pool_Exec_def install_Inr install_Inl
          confirmed_def)
  qed
qed simp_all

text \<open>
  C19. The PostgreSQL adapter is a task repository: \<open>postgres_Repo\<close> satisfies every law of the
  contract \<open>task_repository\<close> the use cases are verified against, with the tables' abstract view
  as its state, so each method refines its abstract counterpart on the map from keys to tasks.
\<close>

theorem postgres_is_repository: "task_repository postgres_Repo pg_inv key view persisted"
  by (rule pg.task_repository_axioms)

text \<open>
  C20. All or nothing: whatever call to the driver fails, in whichever statement, a method of the
  repository that returns an error has left the tables as they were, or has done all of its work:
  when the failing call is the \<^verbatim>\<open>COMMIT\<close> (or a single statement on the pool) and the server carried
  it out although the client got an error, the tables are those the method leaves when the same
  call is confirmed. So nothing is ever stored in part; and when no failing call was carried
  out, an error means that the tables are as before.
\<close>

theorem repository_atomic:
  "atomic (repo_Create postgres_Repo t) \<and> atomic (repo_GetByID postgres_Repo tid) \<and>
   atomic (repo_FindByIdempotencyKey postgres_Repo ik) \<and> atomic (repo_UpdateTask postgres_Repo tid m) \<and>
   atomic (repo_Heartbeat postgres_Repo tid wid) \<and> atomic (repo_PickAndMarkRunning postgres_Repo n) \<and>
   atomic (repo_ResetStuckRunning postgres_Repo d) \<and> atomic (repo_List postgres_Repo f) \<and>
   atomic (repo_CleanupExpired postgres_Repo d) \<and> atomic (LockNextPending n)"
  by (simp add: all_or_nothing_atomic repo_all_or_nothing Heartbeat_all_or_nothing all_or_nothing_keeps)

end
