(* ===== verification/Postgres_Total.thy ===== *)
theory Postgres_Total
  imports Postgres_Contract
begin

text \<open>
  The repository with a driver that does not fail: the methods succeed where their arguments
  allow it, and their result is computed. This is what turns the partial statements of the
  contract (what holds when a call succeeded) into statements that it does.
\<close>

definition no_faults :: "'r world \<Rightarrow> bool" where
  "no_faults w \<longleftrightarrow> faults w = (\<lambda>_. None)"

lemma no_faults_upd [simp]:
  "no_faults (w\<lparr>db := d\<rparr>) = no_faults w" "no_faults (w\<lparr>clock := c\<rparr>) = no_faults w"
  "no_faults (w\<lparr>rdb := s\<rparr>) = no_faults w" "no_faults (w\<lparr>prom := p\<rparr>) = no_faults w"
  "no_faults (w\<lparr>new_ids := i\<rparr>) = no_faults w" "no_faults (w\<lparr>ties := t\<rparr>) = no_faults w"
  by (simp_all add: no_faults_def)

lemma driver_total [simp]: "no_faults w \<Longrightarrow> driver w = (Inr (), w)"
  by (cases w) (auto simp: driver_def no_faults_def shift_def)

lemma andThen_total: "m w = (Inr a, w1) \<Longrightarrow> andThen m k w = k a w1"
  by (simp add: op_defs)

lemma onError_total: "m w = (Inr a, w1) \<Longrightarrow> onError g m w = (Inr a, w1)"
  by (simp add: onError_def)

lemma tx_Begin_total: "no_faults w \<Longrightarrow> tx_Begin w = (Inr (db w), w)"
  by (simp add: tx_Begin_def op_defs)

lemma tx_Exec_total: "no_faults w \<Longrightarrow> stmt d = Inr a \<Longrightarrow> tx_Exec stmt d w = (Inr a, w)"
  by (simp add: tx_Exec_def op_defs)

lemma tx_Commit_total: "no_faults w \<Longrightarrow> tx_Commit d w = (Inr (), w\<lparr>db := d\<rparr>)"
  by (simp add: tx_Commit_def no_faults_def install_confirmed)

lemma pool_Exec_total:
  "no_faults w \<Longrightarrow> pool_Exec s w = (Inr (fst (s (db w))), w\<lparr>db := snd (s (db w))\<rparr>)"
  by (simp add: pool_Exec_def no_faults_def install_confirmed)

lemma scanTask_total: "no_faults w \<Longrightarrow> scanTask (Some r) w = (Inr (task_of_row (lib w) r), w)"
  by (simp add: scanTask_def op_defs)

lemma mapM_total: "(\<And>x. f x w = (Inr (g x), w)) \<Longrightarrow> mapM f xs w = (Inr (map g xs), w)"
  by (induction xs) (simp_all add: op_defs)

lemma loadDeps_total:
  assumes "no_faults w"
  shows "loadDeps u d w = (Inr (map (fromUUID (lib w)) (select_deps u d)), w)"
proof -
  have "mapM (\<lambda>dep. andThen driver (\<lambda>_. with_lib (\<lambda>l. ret (fromUUID l dep)))) xs w =
      (Inr (map (fromUUID (lib w)) xs), w)" for xs
    using assms by (intro mapM_total) (simp add: op_defs)
  then show ?thesis using assms by (simp add: loadDeps_def op_defs)
qed

lemma toUUID_total: "key w tid = Some u \<Longrightarrow> toUUID tid w = (Inr u, w)"
  by (auto simp: key_def toUUID_Inr_iff split: sum.splits)

lemma view_row:
  assumes "view w u = Some t"
  obtains r where "select_task u (db w) = Some r" "r_id r = u"
    "t = (task_of_row (lib w) r)\<lparr>Dependencies := map (fromUUID (lib w)) (select_deps u (db w))\<rparr>"
  using assms select_task_id by (force simp: view_def view_db_def stored_task_def)

lemma GetByID_total:
  assumes "no_faults w" "key w tid = Some u" "view w u = Some t"
  shows "GetByID tid w = (Inr t, w)"
  using assms(3)
proof (rule view_row)
  fix r
  assume "select_task u (db w) = Some r"
    "t = (task_of_row (lib w) r)\<lparr>Dependencies := map (fromUUID (lib w)) (select_deps u (db w))\<rparr>"
  with assms(1,2) show ?thesis
    by (simp add: GetByID_def andThen_total [OF toUUID_total] andThen_total [OF onError_total [OF tx_Begin_total]]
        andThen_total [OF onError_total [OF scanTask_total]] andThen_total [OF onError_total [OF loadDeps_total]]
        andThen_total [OF tx_Commit_total] ret_def)
qed

lemma UpdateTask_total:
  assumes "no_faults w" "key w tid = Some u" "view w u = Some t" "m (clock w 0) t = Inr t'"
  shows "UpdateTask tid m w =
     (Inr t', w\<lparr>clock := shift (clock w), db := update_task u t' (db w)\<rparr>)"
  using assms(3)
proof (rule view_row)
  fix r
  assume "select_task u (db w) = Some r"
    "t = (task_of_row (lib w) r)\<lparr>Dependencies := map (fromUUID (lib w)) (select_deps u (db w))\<rparr>"
  with assms(1,2,4) show ?thesis
    by (simp add: UpdateTask_def andThen_total [OF toUUID_total] andThen_total [OF onError_total [OF tx_Begin_total]]
        andThen_total [OF onError_total [OF scanTask_total]] andThen_total [OF onError_total [OF loadDeps_total]]
        andThen_total [OF tx_Commit_total] andThen_total [OF onError_total [OF tx_Exec_total]] time_Now_def
        lift_sum_def ret_def andThen_def [of time_Now] andThen_def [of "lift_sum _"])
qed

lemma UpdateTask_refused:
  assumes "no_faults w" "key w tid = Some u" "view w u = Some t" "m (clock w 0) t = Inl e"
  shows "UpdateTask tid m w = (Inl e, w\<lparr>clock := shift (clock w)\<rparr>)"
  using assms(3)
proof (rule view_row)
  fix r
  assume "select_task u (db w) = Some r"
    "t = (task_of_row (lib w) r)\<lparr>Dependencies := map (fromUUID (lib w)) (select_deps u (db w))\<rparr>"
  with assms(1,2,4) show ?thesis
    by (simp add: UpdateTask_def andThen_total [OF toUUID_total] andThen_total [OF onError_total [OF tx_Begin_total]]
        andThen_total [OF onError_total [OF scanTask_total]] andThen_total [OF onError_total [OF loadDeps_total]]
        time_Now_def lift_sum_def andThen_def [of time_Now] andThen_def [of "lift_sum _"])
qed

lemma UpdateTask_view:
  assumes "view w u = Some t" "w' = w\<lparr>clock := c, db := update_task u t' (db w)\<rparr>"
  shows "view w' = (view w)(u \<mapsto> persisted t t')"
  using assms by (auto simp: view_def view_update_task)

lemma Heartbeat_total:
  assumes "no_faults w" "key w tid = Some u"
  shows "\<exists>r d. Heartbeat tid wid w = (r, w\<lparr>clock := shift (clock w), db := d\<rparr>)"
  using assms
  by (simp add: Heartbeat_def andThen_total [OF toUUID_total] andThen_total [OF onError_total [OF _]])
    (auto simp: op_defs sql_NOW_def pool_Exec_total)

lemma foldM_total:
  "(\<And>x s. x \<in> set xs \<Longrightarrow> f x s w = (Inr (g x s), w)) \<Longrightarrow> foldM f xs s w = (Inr (fold g xs s), w)"
  by (induction xs arbitrary: s) (simp_all add: op_defs)

text \<open>Whenever the limit is not negative, a batch is picked.\<close>

lemma PickAndMarkRunning_total:
  assumes "no_faults w" "uuid_ok (lib w)" "0 \<le> sint (int32_of_int n)"
  shows "\<exists>ts w'. PickAndMarkRunning n w = (Inr ts, w') \<and> no_faults w'"
proof -
  let ?p = "''postgres: pick-and-mark: ''" and ?now = "timestamptz (clock w 0)"
  let ?w1 = "w\<lparr>clock := shift (clock w)\<rparr>" and ?w2 = "w\<lparr>clock := shift (shift (clock w))\<rparr>"
  obtain rows where s: "select_ready (locked w) ?now (int32_of_int n) (db w) = Inr rows"
    using assms(3) by (simp add: select_ready_def)
  have w1: "no_faults ?w1" "no_faults ?w2" using assms(1) by simp_all
  have scan: "mapM (\<lambda>r. scanTask (Some r)) rows ?w1 = (Inr (map (task_of_row (lib w)) rows), ?w1)"
    using mapM_total [of "\<lambda>r. scanTask (Some r)" ?w1] scanTask_total [OF w1(1)] by simp
  define load where "load = (\<lambda>t. with_lib (\<lambda>l. let uid = (case uuid_Parse l (ID t) of Inl _ \<Rightarrow> 0 | Inr u \<Rightarrow> u) in
       andThen (onError (errorf (?p @ ''deps: '')) (loadDeps uid (db w))) (\<lambda>deps. ret (t\<lparr>Dependencies := deps\<rparr>))) :: (go_error, Task, 'a world) op)"
  define loaded where "loaded = (\<lambda>t. t\<lparr>Dependencies := map (fromUUID (lib w)) (select_deps (case uuid_Parse (lib w) (ID t) of Inl _ \<Rightarrow> 0 | Inr u \<Rightarrow> u) (db w))\<rparr> :: Task)"
  have "load t ?w1 = (Inr (loaded t), ?w1)" for t
    by (simp add: load_def loaded_def op_defs Let_def loadDeps_total [OF w1(1)])
  then have m: "mapM load ts ?w1 = (Inr (map loaded ts), ?w1)" for ts by (rule mapM_total)
  let ?ts = "map loaded (map (task_of_row (lib w)) rows)"
  have q: "queryReady ?p n (db w) w = (Inr ?ts, ?w1)"
    unfolding queryReady_def load_def [symmetric]
    by (simp add: andThen_def [of sql_NOW] sql_NOW_def with_locked_def onError_def tx_Exec_total [OF w1(1)] s
        andThen_def scan m assms(1) del: map_map)
  define mark where "mark = (\<lambda>(t :: Task) d. andThen (toUUID (ID t)) (\<lambda>uid.
        onError (errorf (''postgres: pick-and-mark: update '' @ ID t @ '': ''))
          (tx_Exec (\<lambda>d. Inr (mark_running uid (shift (clock w) 0) d)) d)) :: (go_error, database, 'a world) op)"
  have parse: "\<exists>u. key ?w2 (ID t) = Some u" if "t \<in> set ?ts" for t
    using that assms(2) by (auto simp: key_def loaded_def task_of_row_def fromUUID_def uuid_ok_def)
  have "mark t d ?w2 = (Inr (mark_running (the (key ?w2 (ID t))) (shift (clock w) 0) d), ?w2)"
    if "t \<in> set ?ts" for t d
    using parse [OF that] by (auto simp: mark_def andThen_total [OF toUUID_total] onError_def tx_Exec_total [OF w1(2)])
  then have f: "foldM mark ?ts (db w) ?w2 =
      (Inr (fold (\<lambda>t. mark_running (the (key ?w2 (ID t))) (shift (clock w) 0)) ?ts (db w)), ?w2)"
    by (rule foldM_total)
  have b: "onError (errorf ''postgres: pick-and-mark: begin: '') tx_Begin w = (Inr (db w), w)"
    using tx_Begin_total [OF assms(1)] by (simp add: onError_def)
  have now: "time_Now ?w1 = (Inr (shift (clock w) 0), ?w2)" by simp
  note c = tx_Commit_total [OF w1(2)]
  show ?thesis
    using assms(1)
    by (simp only: PickAndMarkRunning_def andThen_total [where ?w1.0 = w] b)
      (simp add: andThen_total [where ?w1.0 = ?w1] q andThen_total [where ?w1.0 = ?w2] now mark_def [symmetric] f
        andThen_def [of "tx_Commit _"] c ret_def del: map_map time_Now_eq append.simps append_Cons)
qed

subsection \<open>Create\<close>

lemma insertDeps_total:
  assumes "no_faults w" "map (key w) deps = map Some vs" "distinct vs"
    and "u \<in> r_id ` set (tasks d)" "set vs \<subseteq> r_id ` set (tasks d)"
    and "\<And>v. v \<in> set vs \<Longrightarrow> (u, v) \<notin> set (task_dependencies d)"
  shows "\<exists>d'. insertDeps u deps d w = (Inr d', w)"
  using assms(2-)
proof (induction deps arbitrary: vs d)
  case Nil
  then show ?case by (simp add: insertDeps_def)
next
  case (Cons dep deps)
  then obtain v vs' where vs: "vs = v # vs'" "key w dep = Some v" "map (key w) deps = map Some vs'"
    by (cases vs) auto
  let ?d = "d\<lparr>task_dependencies := task_dependencies d @ [(u, v)]\<rparr>"
  have i: "insert_dep u v d = Inr ?d" using Cons.prems vs by (auto simp: insert_dep_Inr_iff)
  have "tx_Exec (insert_dep u v) d w = (Inr ?d, w)" using assms(1) i by (rule tx_Exec_total)
  moreover have "\<exists>d'. insertDeps u deps ?d w = (Inr d', w)"
    using Cons.prems vs by (intro Cons.IH [OF vs(3)]) auto
  ultimately show ?case
    using toUUID_total [OF vs(2)] by (auto simp: insertDeps_def op_defs)
qed

lemma Create_total:
  assumes "no_faults w" "schema_ok (db w)" "key w (ID t) = Some u" "view w u = None"
    and "Priority t \<le> 10"
    and "IdempotencyKey t = [] \<or> (\<forall>r \<in> set (tasks (db w)). r_idempotency_key r \<noteq> Some (IdempotencyKey t))"
    and "map (key w) (Dependencies t) = map Some vs" "distinct vs" "\<And>v. v \<in> set vs \<Longrightarrow> view w v \<noteq> None"
  shows "\<exists>d. Create t w = (Inr (), w\<lparr>db := d\<rparr>)"
proof -
  let ?r = "row_of_task u t"
  let ?d = "(db w)\<lparr>tasks := tasks (db w) @ [?r]\<rparr>"
  have new: "u \<notin> r_id ` set (tasks (db w))"
    using assms(4) by (auto simp: view_def view_db_def select_task_def find_None_key)
  have "signed_take_bit 15 (uint (Priority t)) = uint (Priority t)"
    using uint_lt2p [of "Priority t"] by (intro signed_take_bit_int_eq_self) (simp_all add: order_trans [OF _ uint_ge_0])
  then have "sint (ucast (Priority t) :: 16 word) = uint (Priority t)"
    using uint_lt2p [of "Priority t"] by (simp add: sint_uint unsigned_ucast_eq take_bit_int_eq_self)
  moreover have "uint (Priority t) \<le> 10" using assms(5) by (simp add: word_le_def)
  ultimately have ins: "insert_task ?r (db w) = Inr ?d"
    using new assms(6) by (auto simp: insert_task_Inr_iff row_of_task_def nullText_def)
  have "\<And>v. v \<in> set vs \<Longrightarrow> v \<in> r_id ` set (tasks (db w))"
    using assms(9) by (auto simp: view_def view_db_def dest!: select_task_id)
  moreover have "fst ` set (task_dependencies (db w)) \<subseteq> r_id ` set (tasks (db w))"
    using assms(2) by (simp add: schema_ok_def edges_ok_def)
  ultimately have "\<exists>d'. insertDeps u (Dependencies t) ?d w = (Inr d', w)"
    using new by (intro insertDeps_total [OF assms(1,7,8)]) (force simp: row_of_task_def)+
  then obtain d' where d': "insertDeps u (Dependencies t) ?d w = (Inr d', w)" by blast
  have "Create t w = (Inr (), w\<lparr>db := d'\<rparr>)"
    unfolding Create_def
    by (simp add: toUUID_total [OF assms(3)] op_defs
        tx_Begin_total [OF assms(1)] tx_Exec_total [where stmt = "insert_task ?r", OF assms(1) ins] d' tx_Commit_total [OF assms(1)])
  then show ?thesis by blast
qed

lemma FindByIdempotencyKey_total:
  assumes "no_faults w" "\<forall>r \<in> set (tasks (db w)). r_idempotency_key r \<noteq> Some k"
  shows "FindByIdempotencyKey k w = (Inl (errorf ''postgres: find-by-key: '' ErrNotFound), w)"
proof -
  have "select_by_key k (db w) = None" using assms(2) by (simp add: select_by_key_def find_None_iff)
  then show ?thesis using assms(1)
    by (simp add: FindByIdempotencyKey_def scanTask_def op_defs)
qed

text \<open>
  C33. What is created can be read back: after a successful \<^verbatim>\<open>Create\<close>, on the tables it left, a
  lookup under the task's identifier finds it, with the type, payload, priority, status, key and
  result it was given, the same dependencies, the counters as far as they fit 32 bits, and the
  schedule time to the microsecond.
\<close>

theorem create_then_get:
  assumes "pg_inv w" "Create t w = (Inr x, w1)" "known_status (Status t)"
    and "no_faults w2" "db w2 = db w1" "lib w2 = lib w1"
  shows "\<exists>t'. GetByID (ID t) w2 = (Inr t', w2) \<and> created_as t t' \<and> key w (ID t') = key w (ID t) \<and>
     map (key w) (Dependencies t') = map (key w) (Dependencies t)"
proof -
  from pg_create [OF assms(2,1,3)] obtain k t' where c: "pg_inv w1" "key w1 = key w" "key w (ID t) = Some k"
    "created_as t t'" "map (key w) (Dependencies t') = map (key w) (Dependencies t)" "view w1 k = Some t'"
    by auto
  moreover have "pg_inv w2" "key w2 = key w1" "view w2 = view w1"
    using pg_frame [OF assms(6,5)] c(1) by simp_all
  moreover from this c have g: "GetByID (ID t) w2 = (Inr t', w2)"
    using assms(4) by (intro GetByID_total [where u = k]) simp_all
  ultimately show ?thesis using pg_get [OF g] by auto
qed

end
