(* ===== verification/Listing.thy ===== *)
theory Listing
  imports Postgres_Total "HOL-Library.Multiset"
begin

text \<open>
  Paging through the tasks: what \<^verbatim>\<open>List\<close> returns in terms of the whole list it cuts pages from,
  and how far the pages in sequence are that list, when each query orders equal creation times
  as it likes.
\<close>

text \<open>The whole list behind a filter, newest first, and the tasks of one page.\<close>

definition listing :: "ListFilter \<Rightarrow> 'r world \<Rightarrow> Task list" where
  "listing f w = map (task_of_row (lib w))
     (sort_key (\<lambda>r. - r_created_at r) (filter (row_matches (buildListWhere f)) (tasks (db w))))"

text \<open>The same list with equal creation times in the order the server chooses for the next query.\<close>

definition ranked_rows :: "ListFilter \<Rightarrow> 'r world \<Rightarrow> task_row list" where
  "ranked_rows f w = sort_key (\<lambda>r. - r_created_at r)
     (sort_key (\<lambda>r. ties w 0 (r_id r)) (filter (row_matches (buildListWhere f)) (tasks (db w))))"

definition ranked :: "ListFilter \<Rightarrow> 'r world \<Rightarrow> Task list" where
  "ranked f w = map (task_of_row (lib w)) (ranked_rows f w)"

definition page_tasks :: "ListFilter \<Rightarrow> 'r world \<Rightarrow> Task list" where
  "page_tasks f w = (case fst (List_tasks f w) of Inr (ts, _) \<Rightarrow> ts | Inl _ \<Rightarrow> [])"

text \<open>The filter for page \<open>p\<close> of size \<open>s\<close>.\<close>

definition at_page :: "nat \<Rightarrow> nat \<Rightarrow> ListFilter \<Rightarrow> ListFilter" where
  "at_page p s f = f\<lparr>f_Page := of_nat p, f_PageSize := of_nat s\<rparr>"

lemma sint_of_nat_64: "n < 2 ^ 63 \<Longrightarrow> sint (word_of_nat n :: 64 word) = int n"
proof -
  assume n: "n < 2 ^ 63"
  then have "uint (word_of_nat n :: 64 word) = int n"
    by (simp add: unsigned_of_nat take_bit_nat_eq_self)
  with n show "sint (word_of_nat n :: 64 word) = int n"
    by (simp add: sint_uint signed_take_bit_int_eq_self)
qed

lemma sint_int32_of_nat: "n < 2 ^ 31 \<Longrightarrow> sint (int32_of_int (word_of_nat n)) = int n"
  using sint_ucast_32 [of "word_of_nat n"] sint_of_nat_64 [of n]
  by (simp add: int32_of_int_def fits_int32_def)

lemma scan_total:
  "no_faults w \<Longrightarrow> mapM (\<lambda>r. scanTask (Some r)) rows w = (Inr (map (task_of_row (lib w)) rows), w)"
  by (intro mapM_total scanTask_total)

lemma List_total:
  assumes "no_faults w" "f = normalise_filter f0"
    and "0 \<le> sint (int32_of_int (f_PageSize f))" "0 \<le> sint (int32_of_int ((f_Page f - 1) * f_PageSize f))"
  shows "List_tasks f0 w = (Inr (take (nat (sint (int32_of_int (f_PageSize f))))
       (drop (nat (sint (int32_of_int ((f_Page f - 1) * f_PageSize f)))) (ranked f w)),
     length (filter (row_matches (buildListWhere f)) (tasks (db w)))), w\<lparr>ties := shift (ties w)\<rparr>)"
proof -
  let ?w1 = "w\<lparr>ties := shift (ties w)\<rparr>"
  let ?rows = "take (nat (sint (int32_of_int (f_PageSize f))))
       (drop (nat (sint (int32_of_int ((f_Page f - 1) * f_PageSize f)))) (ranked_rows f w))"
  have "select_page (ties w 0) (buildListWhere f) (int32_of_int (f_PageSize f))
      (int32_of_int ((f_Page f - 1) * f_PageSize f)) (db w) = Inr ?rows"
    using assms(3,4) by (simp add: select_page_def ranked_rows_def)
  then have "tx_Exec (select_page (ties w 0) (buildListWhere f) (int32_of_int (f_PageSize f))
      (int32_of_int ((f_Page f - 1) * f_PageSize f))) (db w) ?w1 = (Inr ?rows, ?w1)"
    using assms(1) by (simp add: tx_Exec_def op_defs)
  then show ?thesis
    using assms(1) scan_total [of ?w1] unfolding List_tasks_def Let_def assms(2) [symmetric]
    by (simp add: op_defs next_ties_def ranked_def take_map drop_map)
qed

lemma normalise_at_page: "0 < p \<Longrightarrow> 0 < s \<Longrightarrow> p < 2 ^ 31 \<Longrightarrow> s < 2 ^ 31 \<Longrightarrow> normalise_filter (at_page p s f) = at_page p s f"
  by (simp add: normalise_filter_def at_page_def Let_def sint_of_nat_64)

lemma ranked_at_page [simp]: "ranked (at_page p s f) w = ranked f w"
  by (simp add: ranked_def ranked_rows_def at_page_def buildListWhere_def)

lemma page_tasks_at_page:
  assumes "no_faults w" "0 < p" "0 < s" "p * s < 2 ^ 31"
  shows "page_tasks (at_page p s f) w = take s (drop ((p - 1) * s) (ranked f w))"
proof -
  have "p \<le> p * s" "s \<le> p * s" using assms(2,3) by simp_all
  then have b: "p < 2 ^ 31" "s < 2 ^ 31" using assms(4) by linarith+
  have off: "(word_of_nat p - 1) * word_of_nat s = (word_of_nat ((p - 1) * s) :: 64 word)"
    using assms(2) by (simp add: of_nat_diff)
  have "(p - 1) * s \<le> p * s" by simp
  then have o31: "(p - 1) * s < 2 ^ 31" using assms(4) by linarith
  have n: "at_page p s f = normalise_filter (at_page p s f)"
    using normalise_at_page [OF assms(2,3) b] by simp
  have fields: "f_PageSize (at_page p s f) = word_of_nat s" "f_Page (at_page p s f) = word_of_nat p"
    by (simp_all add: at_page_def)
  show ?thesis
    using List_total [OF assms(1) n]
    by (simp only: page_tasks_def fields off sint_int32_of_nat [OF b(2)] sint_int32_of_nat [OF o31]
        ranked_at_page nat_int of_nat_0_le_iff fst_conv sum.case prod.case simp_thms)
qed

text \<open>Two rankings of one table have the same tasks, and the same creation times in the same places.\<close>

lemma sort_key_keys: "map k (sort_key k xs) = sort (map k xs)"
  by (rule properties_for_sort [symmetric]) simp_all

lemma ranked_times:
  assumes "mset (tasks (db v)) = mset (tasks (db w))"
  shows "map CreatedAt (ranked f v) = map CreatedAt (listing f w)"
proof -
  let ?k = "\<lambda>r. - r_created_at r"
  let ?all = "filter (row_matches (buildListWhere f)) (tasks (db w))"
  have "mset (map ?k (sort_key (\<lambda>r. ties v 0 (r_id r)) (filter (row_matches (buildListWhere f)) (tasks (db v)))))
      = mset (map ?k ?all)"
    using assms by (simp add: mset_filter)
  then have "map ?k (ranked_rows f v) = map ?k (sort_key ?k ?all)"
    unfolding ranked_rows_def sort_key_keys by (intro properties_for_sort) simp_all
  then have "map uminus (map ?k (ranked_rows f v)) = map uminus (map ?k (sort_key ?k ?all))" by (rule arg_cong)
  then show ?thesis by (simp add: ranked_def listing_def o_def task_of_row_def)
qed

lemma ranked_set:
  assumes "lib v = lib w" "mset (tasks (db v)) = mset (tasks (db w))"
  shows "set (ranked f v) = set (listing f w)"
  using mset_eq_setD [OF assms(2)] by (simp add: ranked_def ranked_rows_def listing_def assms(1))

text \<open>
  C34. Paging: with a driver that does not fail, and while no task is stored, changed or removed,
  the pages 1 to \<open>n\<close> of any positive size, one after the other, have the creation times of the
  first \<open>n\<close> times that many matching tasks, newest first, each of them a matching task. The server may
  return tasks of equal creation time in another order for every page, so such a task may come
  twice or not at all; when the creation times of the matching tasks differ, the pages are the
  list, without a gap or a repetition. The offsets must fit the query's 32-bit parameter.
\<close>

theorem list_pages:
  assumes "0 < s" "n * s < 2 ^ 31"
    and "\<And>p. 0 < p \<Longrightarrow> p \<le> n \<Longrightarrow> no_faults (ws p) \<and> lib (ws p) = lib w \<and>
        mset (tasks (db (ws p))) = mset (tasks (db w))"
    and "fetched = concat (map (\<lambda>p. page_tasks (at_page p s f) (ws p)) [1..<Suc n])"
  shows "map CreatedAt fetched = take (n * s) (map CreatedAt (listing f w)) \<and>
     set fetched \<subseteq> set (listing f w) \<and>
     (distinct (map CreatedAt (listing f w)) \<longrightarrow> fetched = take (n * s) (listing f w))"
proof -
  have page: "page_tasks (at_page p s f) (ws p) = take s (drop ((p - 1) * s) (ranked f (ws p)))"
    if "0 < p" "p \<le> n" for p
  proof (rule page_tasks_at_page)
    have "p * s \<le> n * s" using that by simp
    then show "p * s < 2 ^ 31" using assms(2) by linarith
  qed (simp_all add: assms(1,3) that)
  have "map CreatedAt (concat (map (\<lambda>p. page_tasks (at_page p s f) (ws p)) [1..<Suc m])) =
      take (m * s) (map CreatedAt (listing f w))" if "m \<le> n" for m
    using that
  proof (induction m)
    case (Suc m)
    have "map CreatedAt (page_tasks (at_page (Suc m) s f) (ws (Suc m))) =
        take s (drop (m * s) (map CreatedAt (listing f w)))"
      using page [of "Suc m"] ranked_times [of "ws (Suc m)" w f] assms(3) [of "Suc m"] Suc.prems
      by (simp add: take_map [symmetric] drop_map [symmetric])
    moreover have "take (Suc m * s) xs = take (m * s) xs @ take s (drop (m * s) xs)" for xs :: "gotime list"
      by (simp only: mult_Suc add.commute [of s] take_add)
    ultimately show ?case using Suc by simp
  qed simp
  then have times: "map CreatedAt fetched = take (n * s) (map CreatedAt (listing f w))"
    by (simp add: assms(4))
  have "set (page_tasks (at_page p s f) (ws p)) \<subseteq> set (listing f w)" if "0 < p" "p \<le> n" for p
  proof -
    have "set (page_tasks (at_page p s f) (ws p)) \<subseteq> set (ranked f (ws p))"
      unfolding page [OF that] by (blast dest: in_set_takeD in_set_dropD)
    then show ?thesis using ranked_set [of "ws p" w f] assms(3) [OF that] by simp
  qed
  then have "set (concat (map (\<lambda>p. page_tasks (at_page p s f) (ws p)) ps)) \<subseteq> set (listing f w)"
    if "set ps \<subseteq> {1..n}" for ps
    using that by (induction ps) auto
  then have within: "set fetched \<subseteq> set (listing f w)" unfolding assms(4) by (rule meta_mp) auto
  have "fetched = take (n * s) (listing f w)" if "distinct (map CreatedAt (listing f w))"
  proof -
    have "map CreatedAt fetched = map CreatedAt (take (n * s) (listing f w))" using times by (simp add: take_map)
    moreover have "inj_on CreatedAt (set (listing f w))" using that by (simp add: distinct_map)
    then have "inj_on CreatedAt (set fetched \<union> set (take (n * s) (listing f w)))"
      by (rule inj_on_subset) (rule Un_least [OF within set_take_subset])
    ultimately show ?thesis by (rule map_inj_on)
  qed
  with times within show ?thesis by blast
qed

text \<open>
  Pages are counted from 1, and page 0 is page 1: a request for page 0, the first page by the
  comment in the protocol, returns the same as one for page 1.
\<close>

lemma page_zero_is_one: "List_tasks (f\<lparr>f_Page := 0\<rparr>) = List_tasks (f\<lparr>f_Page := 1\<rparr>)"
proof -
  have "normalise_filter (f\<lparr>f_Page := 0\<rparr>) = normalise_filter (f\<lparr>f_Page := 1\<rparr>)"
    by (cases f) (simp add: normalise_filter_def Let_def)
  then show ?thesis by (simp only: List_tasks_def [abs_def])
qed

end
