(* ===== verification/Dispatch.thy ===== *)
theory Dispatch
  imports Postgres_Contract "HOL-Library.Multiset"
begin

text \<open>
  What the scheduler's query promises, in terms of the abstract view: it dispatches runnable
  tasks only (pending, due, every dependency completed), in the order of priority and then of
  schedule, never more than asked for, never the same task twice, and passes over a runnable
  task only when a full batch of at least as urgent ones was found or another transaction
  holds its row. The terms in which \<open>Dependencies\<close> speaks of the stored dependency graph are here too.
\<close>

definition runnable :: "'r world \<Rightarrow> gotime \<Rightarrow> uuid \<Rightarrow> bool" where
  "runnable w now k \<longleftrightarrow>
     (\<exists>t. view w k = Some t \<and> Status t = StatusPending \<and> ScheduledAt t \<le> now \<and>
        (\<forall>d \<in> set (Dependencies t). \<exists>u t'. key w d = Some u \<and> view w u = Some t' \<and>
           Status t' = StatusCompleted))"

definition dispatch_order :: "Task \<Rightarrow> int \<times> int" where
  "dispatch_order t = (- uint (Priority t), ScheduledAt t)"

text \<open>The stored dependency graph.\<close>

definition dep_edges :: "database \<Rightarrow> (uuid \<times> uuid) set" where
  "dep_edges d = set (task_dependencies d)"

text \<open>What a pending task can be waiting for, other than a dependency that waits itself.\<close>

definition holds_up :: "'r world \<Rightarrow> gotime \<Rightarrow> uuid \<Rightarrow> bool" where
  "holds_up w now k \<longleftrightarrow>
     (\<exists>t. view w k = Some t \<and>
        (Status t \<in> {StatusRunning, StatusFailed, StatusCancelled} \<or>
         Status t = StatusPending \<and> now < ScheduledAt t))"

lemma uint_priority:
  assumes "0 \<le> sint p" "sint p \<le> 10"
  shows "uint (ucast (p :: 16 word) :: 8 word) = sint p"
proof -
  have "uint p = sint p"
    using assms by (simp add: uint_sint take_bit_int_eq_self)
  then show ?thesis using assms by (simp add: unsigned_ucast_eq take_bit_int_eq_self)
qed

lemma dispatch_order_stored:
  assumes "priorities_ok d" "r \<in> set (tasks d)"
  shows "dispatch_order (stored_task l d r) = ready_order r"
  using assms by (simp add: dispatch_order_def ready_order_def stored_task_def task_of_row_def
      uint_priority priorities_ok_def)

lemma blocked_iff:
  assumes "schema_ok d"
  shows "blocked d u \<longleftrightarrow>
     (\<exists>v \<in> set (select_deps u d). \<exists>r. select_task v d = Some r \<and> r_status r \<noteq> StatusCompleted)"
  using assms unfolding blocked_def select_deps_def status_literals by (force simp: select_task_iff)

lemma dep_exists:
  assumes "schema_ok d" "v \<in> set (select_deps u d)"
  shows "\<exists>r. select_task v d = Some r"
proof -
  from assms have "v \<in> r_id ` set (tasks d)"
    by (force simp: select_deps_def schema_ok_def edges_ok_def)
  then show ?thesis using assms(1) by (auto simp: select_task_iff)
qed

lemma ready_runnable:
  assumes "pg_inv w" "select_task k (db w) = Some r"
  shows "ready now (db w) r \<longleftrightarrow> runnable w now k"
proof -
  have ok: "schema_ok (db w)" "uuid_ok (lib w)" using assms(1) by (simp_all add: pg_inv_def)
  have id: "r_id r = k" using select_task_id [OF assms(2)] by simp
  have v: "view w k = Some (stored_task (lib w) (db w) r)"
    using assms(2) by (simp add: view_def view_db_def)
  have "runnable w now k \<longleftrightarrow> r_status r = StatusPending \<and> r_scheduled_at r \<le> now \<and>
      (\<forall>u \<in> set (select_deps k (db w)). \<exists>t'. view w u = Some t' \<and> Status t' = StatusCompleted)"
    using ok(2) by (simp add: runnable_def v stored_task_def id) (simp add: task_of_row_def)
  also have "(\<forall>u \<in> set (select_deps k (db w)). \<exists>t'. view w u = Some t' \<and> Status t' = StatusCompleted)
      \<longleftrightarrow> \<not> blocked (db w) k"
    using dep_exists [OF ok(1)] unfolding blocked_iff [OF ok(1)] view_def view_db_def by fastforce
  finally show ?thesis by (auto simp: ready_def status_literals id)
qed

subsection \<open>The query\<close>

lemma select_ready_distinct:
  assumes "select_ready lk now n d = Inr rows" "distinct (map r_id (tasks d))"
  shows "distinct (map r_id rows)"
proof -
  have "mset (sort_key ready_order (filter (ready now d) (tasks d))) = mset (filter (ready now d) (tasks d))"
    by simp
  then have "distinct (map r_id (sort_key ready_order (filter (ready now d) (tasks d))))"
    using assms(2) by (metis distinct_map_filter_key mset_map mset_eq_imp_distinct_iff)
  then show ?thesis
    using assms(1) by (auto simp: select_ready_def take_map [symmetric] distinct_map_filter_key split: if_splits)
qed

lemma select_ready_sorted:
  assumes "select_ready lk now n d = Inr rows"
  shows "sorted (map ready_order rows)"
  using assms by (auto simp: select_ready_def take_map [symmetric] sorted_filter sorted_wrt_take split: if_splits)

lemma select_ready_length:
  "select_ready lk now n d = Inr rows \<Longrightarrow> int (length rows) \<le> sint n"
  by (auto simp: select_ready_def split: if_splits)

lemma select_ready_maximal:
  assumes "select_ready lk now n d = Inr rows" "r \<in> set (tasks d)" "ready now d r" "\<not> lk (r_id r)"
    "r \<notin> set rows"
  shows "int (length rows) = sint n \<and> (\<forall>p \<in> set rows. ready_order p \<le> ready_order r)"
proof -
  let ?all = "filter (\<lambda>r. \<not> lk (r_id r)) (sort_key ready_order (filter (ready now d) (tasks d)))"
  have rows: "rows = take (nat (sint n)) ?all" and n: "0 \<le> sint n"
    using assms(1) by (auto simp: select_ready_def split: if_splits)
  have "r \<in> set ?all" using assms by simp
  with assms(5) have r: "r \<in> set (drop (nat (sint n)) ?all)"
    by (metis Un_iff append_take_drop_id rows set_append)
  then have "nat (sint n) < length ?all" by (metis drop_eq_Nil empty_iff empty_set not_less)
  moreover have "sorted (map ready_order (take (nat (sint n)) ?all @ drop (nat (sint n)) ?all))"
    by (simp only: append_take_drop_id) (simp add: sorted_filter)
  ultimately have "ready_order p \<le> ready_order r" if "p \<in> set rows" for p
    using r that unfolding rows map_append sorted_append by fastforce
  then show ?thesis using \<open>nat (sint n) < length ?all\<close> n by (auto simp: rows)
qed

subsection \<open>PickAndMarkRunning\<close>

text \<open>The picked rows, the tasks returned for them, and the tables they leave, in one statement.\<close>

lemma pick_rows:
  assumes "pg_inv w" "PickAndMarkRunning n w = (Inr ts, w')"
  obtains rows now where
    "select_ready (locked w) (timestamptz (clock w 0)) (int32_of_int n) (db w) = Inr rows"
    "ts = map (\<lambda>r. (stored_task (lib w) (db w) r)\<lparr>Status := StatusRunning, UpdatedAt := now\<rparr>) rows"
    "db w' = snd (update_where (\<lambda>r. r_id r \<in> r_id ` set rows)
            (\<lambda>r. r\<lparr>r_status := ''running'', r_updated_at := timestamptz now\<rparr>) (db w))"
    "lib w' = lib w" "distinct (map r_id rows)"
    "\<And>r. r \<in> set rows \<Longrightarrow> select_task (r_id r) (db w) = Some r"
proof -
  have ok: "uuid_ok (lib w)" "schema_ok (db w)" using assms(1) by (simp_all add: pg_inv_def)
  from assms(2) ok(1) obtain rows now where p:
    "select_ready (locked w) (timestamptz (clock w 0)) (int32_of_int n) (db w) = Inr rows"
    "ts = map (\<lambda>r. (stored_task (lib w) (db w) r)\<lparr>Status := StatusRunning, UpdatedAt := now\<rparr>) rows"
    "db w' = snd (update_where (\<lambda>r. r_id r \<in> r_id ` set rows)
            (\<lambda>r. r\<lparr>r_status := ''running'', r_updated_at := timestamptz now\<rparr>) (db w))"
    "lib w' = lib w"
    by (rule PickAndMarkRunning_Inr)
  show thesis
    using p select_ready_distinct [OF p(1) schema_ok_D(1) [OF ok(2)]] select_ready_subset [OF p(1)] ok(2)
    by (intro that [OF p]) (auto simp: select_task_iff)
qed

text \<open>What marking the rows of \<open>ks\<close> shows in the view.\<close>

lemma view_marked:
  assumes "db w' = snd (update_where (\<lambda>r. r_id r \<in> ks)
            (\<lambda>r. r\<lparr>r_status := ''running'', r_updated_at := timestamptz now\<rparr>) (db w))" "lib w' = lib w"
  shows "view w' k = (if k \<in> ks then map_option (\<lambda>t. t\<lparr>Status := StatusRunning, UpdatedAt := timestamptz now\<rparr>) (view w k)
     else view w k)"
proof -
  let ?f = "\<lambda>r. r\<lparr>r_status := ''running'', r_updated_at := timestamptz now\<rparr>"
  have "stored_task (lib w) (db w) (?f r) =
      (stored_task (lib w) (db w) r)\<lparr>Status := StatusRunning, UpdatedAt := timestamptz now\<rparr>" for r
    by (simp add: stored_task_def task_of_row_def status_literals)
  then show ?thesis
    unfolding view_def assms view_update_where [of ?f, simplified]
    by (cases "select_task k (db w)") (use select_task_id in \<open>auto simp: view_db_def\<close>)
qed

lemma view_selected: "select_task k (db w) = Some r \<Longrightarrow> view w k = Some (stored_task (lib w) (db w) r)"
  by (simp add: view_def view_db_def)

lemma runnable_row: "runnable w now k \<Longrightarrow> \<exists>r. select_task k (db w) = Some r"
  by (auto simp: runnable_def view_def view_db_def)

lemma key_picked: "pg_inv w \<Longrightarrow> key w (ID ((stored_task (lib w) d r)\<lparr>Status := s, UpdatedAt := a\<rparr>)) = Some (r_id r)"
  by (simp add: key_def pg_inv_def stored_task_id)

lemma ready_order_picked:
  "dispatch_order (t\<lparr>Status := s, UpdatedAt := a\<rparr>) = dispatch_order t"
  by (simp add: dispatch_order_def)

text \<open>While the ready tasks all fit the batch, every runnable task no one holds is picked.\<close>

lemma pick_when_room:
  assumes "pg_inv w" "PickAndMarkRunning n w = (Inr ts, w')"
    and "runnable w (timestamptz (clock w 0)) k" "\<not> locked w k" "view w k = Some t"
    and "int (length (filter (ready (timestamptz (clock w 0)) (db w)) (tasks (db w)))) \<le> sint (int32_of_int n)"
  shows "\<exists>at. t\<lparr>Status := StatusRunning, UpdatedAt := at\<rparr> \<in> set ts \<and>
     view w' k = Some (t\<lparr>Status := StatusRunning, UpdatedAt := timestamptz at\<rparr>)"
proof (rule pick_rows [OF assms(1,2)])
  fix rows now
  let ?all = "filter (\<lambda>r. \<not> locked w (r_id r)) (sort_key ready_order (filter (ready (timestamptz (clock w 0)) (db w)) (tasks (db w))))"
  assume s: "select_ready (locked w) (timestamptz (clock w 0)) (int32_of_int n) (db w) = Inr rows"
    and ts: "ts = map (\<lambda>r. (stored_task (lib w) (db w) r)\<lparr>Status := StatusRunning, UpdatedAt := now\<rparr>) rows"
    and d: "db w' = snd (update_where (\<lambda>r. r_id r \<in> r_id ` set rows)
            (\<lambda>r. r\<lparr>r_status := ''running'', r_updated_at := timestamptz now\<rparr>) (db w))" and l: "lib w' = lib w"
  from assms(5) obtain r where r: "select_task k (db w) = Some r" "t = stored_task (lib w) (db w) r"
    by (auto simp: view_def view_db_def)
  have "length ?all \<le> length (filter (ready (timestamptz (clock w 0)) (db w)) (tasks (db w)))"
    by (rule order_trans [OF length_filter_le]) simp
  then have "rows = ?all" using s assms(6) by (auto simp: select_ready_def split: if_splits)
  moreover have "ready (timestamptz (clock w 0)) (db w) r" using ready_runnable [OF assms(1) r(1)] assms(3) by simp
  ultimately have row: "r \<in> set rows" using select_task_id [OF r(1)] assms(4) by simp
  have "view w' k = Some (t\<lparr>Status := StatusRunning, UpdatedAt := timestamptz now\<rparr>)"
    using row select_task_id [OF r(1)] assms(5) by (auto simp: view_marked [OF d l])
  then show ?thesis using row ts r(2) by auto
qed

text \<open>\<^verbatim>\<open>LockNextPending\<close> sees the batch that \<^verbatim>\<open>PickAndMarkRunning\<close> would mark, and leaves it pending.\<close>

lemma lock_next_agrees:
  assumes "pg_inv w" "LockNextPending n w = (Inr ts, w1)" "PickAndMarkRunning n w = (Inr us, w2)"
  shows "db w1 = db w \<and> (\<exists>now. us = map (\<lambda>t. t\<lparr>Status := StatusRunning, UpdatedAt := now\<rparr>) ts)"
proof (rule pick_rows [OF assms(1,3)])
  fix rows now
  assume s: "select_ready (locked w) (timestamptz (clock w 0)) (int32_of_int n) (db w) = Inr rows"
    and us: "us = map (\<lambda>r. (stored_task (lib w) (db w) r)\<lparr>Status := StatusRunning, UpdatedAt := now\<rparr>) rows"
  from assms(2) obtain d w3 w4 x where b: "tx_Begin w = (Inr d, w3)"
    and q: "queryReady ''postgres: lock-next: '' n d w3 = (Inr ts, w4)" and c: "tx_Commit d w4 = (Inr x, w1)"
    by (auto simp: LockNextPending_def andThen_Inr_iff)
  note b = tx_Begin_Inr [OF b] and c = tx_Commit_Inr [OF c]
  have "ts = map (stored_task (lib w) (db w)) rows"
    using queryReady_Inr [OF q] b s assms(1) by (auto simp: pg_inv_def)
  with us b c show ?thesis by (auto intro!: exI [of _ now])
qed

text \<open>
  C1. Dependency safety of dispatch: every task that \<^verbatim>\<open>PickAndMarkRunning\<close> returns was pending,
  due at the query's \<^verbatim>\<open>NOW()\<close>, not locked by another transaction, and every one of its
  dependencies was completed; after the call it is stored as running.
\<close>

theorem pick_only_runnable:
  assumes "pg_inv w" "PickAndMarkRunning n w = (Inr ts, w')" "t \<in> set ts"
  shows "\<exists>k t'. key w (ID t) = Some k \<and> runnable w (timestamptz (clock w 0)) k \<and> \<not> locked w k \<and>
     view w' k = Some t' \<and> Status t' = StatusRunning"
proof (rule pick_rows [OF assms(1,2)])
  fix rows now
  assume s: "select_ready (locked w) (timestamptz (clock w 0)) (int32_of_int n) (db w) = Inr rows"
    and ts: "ts = map (\<lambda>r. (stored_task (lib w) (db w) r)\<lparr>Status := StatusRunning, UpdatedAt := now\<rparr>) rows"
    and d: "db w' = snd (update_where (\<lambda>r. r_id r \<in> r_id ` set rows)
            (\<lambda>r. r\<lparr>r_status := ''running'', r_updated_at := timestamptz now\<rparr>) (db w))"
    and l: "lib w' = lib w" and sel: "\<And>r. r \<in> set rows \<Longrightarrow> select_task (r_id r) (db w) = Some r"
  from assms(3) ts obtain r where r: "r \<in> set rows"
    "t = (stored_task (lib w) (db w) r)\<lparr>Status := StatusRunning, UpdatedAt := now\<rparr>" by auto
  have "runnable w (timestamptz (clock w 0)) (r_id r) \<and> \<not> locked w (r_id r)"
    using ready_runnable [OF assms(1) sel [OF r(1)]] select_ready_subset [OF s r(1)] by simp
  moreover have "key w (ID t) = Some (r_id r)" by (simp only: r(2) key_picked [OF assms(1)])
  moreover have "\<exists>t'. view w' (r_id r) = Some t' \<and> Status t' = StatusRunning"
    using r(1) by (simp add: view_marked [OF d l] view_selected [OF sel [OF r(1)]])
  ultimately show ?thesis by blast
qed

text \<open>
  C3. Order and size of a batch: the tasks \<^verbatim>\<open>PickAndMarkRunning\<close> returns are pairwise different,
  no more than the limit as the \<^verbatim>\<open>int32\<close> parameter of the query carries it, and sorted by
  descending priority, then by ascending schedule time.
\<close>

theorem pick_ordered:
  assumes "pg_inv w" "PickAndMarkRunning n w = (Inr ts, w')"
  shows "distinct (map (key w \<circ> ID) ts) \<and> int (length ts) \<le> sint (int32_of_int n) \<and>
     sorted (map dispatch_order ts)"
proof (rule pick_rows [OF assms])
  fix rows now
  assume s: "select_ready (locked w) (timestamptz (clock w 0)) (int32_of_int n) (db w) = Inr rows"
    and ts: "ts = map (\<lambda>r. (stored_task (lib w) (db w) r)\<lparr>Status := StatusRunning, UpdatedAt := now\<rparr>) rows"
    and dist: "distinct (map r_id rows)"
  have "map (key w \<circ> ID) ts = map Some (map r_id rows)"
    by (simp only: ts map_map o_def key_picked [OF assms(1)])
  then have "distinct (map (key w \<circ> ID) ts)" using dist by (auto simp: distinct_map inj_on_def)
  moreover have "map dispatch_order ts = map ready_order rows"
    using select_ready_subset [OF s] assms(1)
    by (auto simp: ts ready_order_picked dispatch_order_stored pg_inv_def schema_ok_def)
  ultimately show ?thesis
    using select_ready_length [OF s] select_ready_sorted [OF s] ts length_map by metis
qed

text \<open>
  C4. No needless waiting: a runnable task whose row no other transaction holds is passed over
  only when the batch is full, and then every task of the batch is at least as urgent.
\<close>

theorem pick_maximal:
  assumes "pg_inv w" "PickAndMarkRunning n w = (Inr ts, w')"
    and "runnable w (timestamptz (clock w 0)) k" "\<not> locked w k" "view w k = Some t"
    and "Some k \<notin> (key w \<circ> ID) ` set ts"
  shows "int (length ts) = sint (int32_of_int n) \<and> (\<forall>p \<in> set ts. dispatch_order p \<le> dispatch_order t)"
proof (rule pick_rows [OF assms(1,2)])
  fix rows now
  assume s: "select_ready (locked w) (timestamptz (clock w 0)) (int32_of_int n) (db w) = Inr rows"
    and ts: "ts = map (\<lambda>r. (stored_task (lib w) (db w) r)\<lparr>Status := StatusRunning, UpdatedAt := now\<rparr>) rows"
  from assms(5) obtain r where r: "select_task k (db w) = Some r" "t = stored_task (lib w) (db w) r"
    by (auto simp: view_def view_db_def)
  have "(key w \<circ> ID) ` set ts = Some ` r_id ` set rows"
    by (simp only: ts set_map image_image o_def key_picked [OF assms(1)])
  then have "r \<notin> set rows" using assms(6) select_task_id [OF r(1)] by auto
  then have "int (length rows) = sint (int32_of_int n) \<and> (\<forall>p \<in> set rows. ready_order p \<le> ready_order r)"
    using select_task_id [OF r(1)] assms(3,4) ready_runnable [OF assms(1) r(1)]
    by (intro select_ready_maximal [OF s]) auto
  moreover have p: "priorities_ok (db w)" using assms(1) by (simp add: pg_inv_def schema_ok_def)
  ultimately show ?thesis
    using select_ready_subset [OF s] select_task_id [OF r(1)]
    by (simp add: ts r(2) ready_order_picked dispatch_order_stored)
qed

text \<open>
  C5. Exclusive dispatch: a second pick on the tables the first one left, by whatever scheduler
  and at whatever time, returns none of the tasks the first one returned.
\<close>

theorem pick_exclusive:
  assumes "pg_inv w" "PickAndMarkRunning n w = (Inr ts, w1)"
    and "db w2 = db w1" "lib w2 = lib w1" "PickAndMarkRunning m w2 = (Inr us, w3)"
  shows "(key w \<circ> ID) ` set ts \<inter> (key w \<circ> ID) ` set us = {}"
proof (rule pick_rows [OF assms(1,2)])
  fix rows now
  let ?f = "\<lambda>r. r\<lparr>r_status := ''running'', r_updated_at := timestamptz now\<rparr>"
  assume ts: "ts = map (\<lambda>r. (stored_task (lib w) (db w) r)\<lparr>Status := StatusRunning, UpdatedAt := now\<rparr>) rows"
    and d: "db w1 = snd (update_where (\<lambda>r. r_id r \<in> r_id ` set rows) ?f (db w))" and l: "lib w1 = lib w"
  have "pg_inv w1 \<and> key w1 = key w" using pg_pick [OF assms(2,1)] by blast
  then have inv2: "pg_inv w2" and key2: "key w2 = key w"
    using pg_frame [OF assms(4,3)] by simp_all
  show ?thesis
  proof (rule pick_rows [OF inv2 assms(5)])
    fix rows2 now2
    assume s2: "select_ready (locked w2) (timestamptz (clock w2 0)) (int32_of_int m) (db w2) = Inr rows2"
      and us: "us = map (\<lambda>r. (stored_task (lib w2) (db w2) r)\<lparr>Status := StatusRunning, UpdatedAt := now2\<rparr>) rows2"
    have "r_id ` set rows2 \<inter> r_id ` set rows = {}"
      using select_ready_subset [OF s2] by (fastforce simp: assms(3) d ready_def split: if_splits)
    moreover have "(key w \<circ> ID) ` set us = Some ` r_id ` set rows2"
      by (simp only: us set_map image_image o_def key_picked [OF inv2, unfolded key2])
    moreover have "(key w \<circ> ID) ` set ts = Some ` r_id ` set rows"
      by (simp only: ts set_map image_image o_def key_picked [OF assms(1)])
    ultimately show ?thesis by (simp only:) (simp add: image_Int [symmetric] inf_commute)
  qed
qed

subsection \<open>The dependency graph\<close>

lemma acyclic_new_source:
  assumes "acyclic E" "u \<notin> Range E" "u \<notin> V"
  shows "acyclic (E \<union> {u} \<times> V)"
proof (rule ccontr)
  assume "\<not> acyclic (E \<union> {u} \<times> V)"
  then obtain x where x: "(x, x) \<in> (E \<union> {u} \<times> V)\<^sup>+" by (auto simp: acyclic_def)
  have into: "y \<noteq> u" if "(z, y) \<in> (E \<union> {u} \<times> V)\<^sup>+" for z y
    using that by (cases rule: tranclE) (use assms(2,3) in auto)
  have "(z, y) \<in> E\<^sup>+" if "(z, y) \<in> (E \<union> {u} \<times> V)\<^sup>+" "z \<noteq> u" for z y
    using that(1)
  proof (induction rule: trancl_induct)
    case (base y)
    then show ?case using that(2) by auto
  next
    case (step y v)
    then show ?case using into [of z y] by auto
  qed
  with x into [OF x] assms(1) show False by (auto simp: acyclic_def)
qed

lemma waits_for_dependency:
  assumes "pg_inv w" "view w k = Some t" "Status t = StatusPending" "ScheduledAt t \<le> now"
    "\<not> runnable w now k"
  shows "\<exists>u t'. (k, u) \<in> dep_edges (db w) \<and> view w u = Some t' \<and> Status t' \<noteq> StatusCompleted"
proof -
  from assms(2) obtain r where r: "select_task k (db w) = Some r" "t = stored_task (lib w) (db w) r"
    by (auto simp: view_def view_db_def)
  have ok: "schema_ok (db w)" using assms(1) by (simp add: pg_inv_def)
  have "blocked (db w) k"
    using assms(3-5) ready_runnable [OF assms(1) r(1), of now] select_task_id [OF r(1)] r(2)
    by (auto simp: ready_def status_literals stored_task_def task_of_row_def)
  then show ?thesis
    using blocked_iff [OF ok] by (auto simp: dep_edges_def select_deps_def view_def view_db_def)
qed

text \<open>
  Waiting ends somewhere: over a graph whose only cycles are self-references, a pending task
  can be dispatched now, or it waits, directly or not, for a task that can, that is held up by
  itself, or that names itself as its dependency.
\<close>

lemma waiting_ends:
  assumes "pg_inv w" "acyclic (dep_edges (db w) - Id)" "view w k = Some t" "Status t = StatusPending"
  shows "\<exists>u. (k, u) \<in> (dep_edges (db w))\<^sup>* \<and> (runnable w now u \<or> holds_up w now u \<or> (u, u) \<in> dep_edges (db w))"
proof -
  have "wf ((dep_edges (db w) - Id)\<inverse>)"
    using assms(2) by (intro finite_acyclic_wf_converse) (simp_all add: dep_edges_def)
  then show ?thesis
    using assms(3,4)
  proof (induction k arbitrary: t rule: wf_induct_rule)
    case (less k)
    show ?case
    proof (cases "runnable w now k \<or> now < ScheduledAt t \<or> (k, k) \<in> dep_edges (db w)")
      case True
      then show ?thesis using less.prems by (auto simp: holds_up_def)
    next
      case False
      with waits_for_dependency [OF assms(1) less.prems, of now]
      obtain u t' where u: "(k, u) \<in> dep_edges (db w)" "view w u = Some t'" "Status t' \<noteq> StatusCompleted"
        by force
      have "(u, k) \<in> (dep_edges (db w) - Id)\<inverse>" using u(1) False by auto
      moreover have "known_status (Status t')" using pg_view_known [OF assms(1) u(2)] .
      then have "holds_up w now u \<or> Status t' = StatusPending"
        using u by (auto simp: holds_up_def known_status_def)
      ultimately show ?thesis
        using u less.IH [of u t'] by (meson converse_rtrancl_into_rtrancl rtrancl.rtrancl_refl)
    qed
  qed
qed

end
