(* ===== verification/Use_Case_Contract.thy ===== *)
theory Use_Case_Contract
  imports Repository_Contract
begin

text \<open>
  The contracts the use cases are verified against. The repository is the one of
  \<open>task_repository\<close>; of the other ports (broker, clock, identifier generator, metrics) the use
  cases only rely on their leaving the repository's state alone, which is the locale
  \<open>side_ports\<close>. \<open>use_cases\<close> joins the two; its lemmas are the ones every use case needs.
\<close>

text \<open>One step of the system keeps the invariant and lets the table evolve.\<close>

definition step_ok ::
  "('w \<Rightarrow> bool) \<Rightarrow> ('w \<Rightarrow> TaskID \<Rightarrow> 'k option) \<Rightarrow> ('w \<Rightarrow> 'k \<Rightarrow> Task option) \<Rightarrow> 'w \<Rightarrow> 'w \<Rightarrow> bool" where
  "step_ok I key view w w' \<longleftrightarrow> I w' \<and> key w' = key w \<and> evolves (view w) (view w')"

text \<open>The same with an unchanged table.\<close>

definition same_view ::
  "('w \<Rightarrow> bool) \<Rightarrow> ('w \<Rightarrow> TaskID \<Rightarrow> 'k option) \<Rightarrow> ('w \<Rightarrow> 'k \<Rightarrow> Task option) \<Rightarrow> 'w \<Rightarrow> 'w \<Rightarrow> bool" where
  "same_view I key view w w' \<longleftrightarrow> I w' \<and> key w' = key w \<and> view w' = view w"

text \<open>
  Actions that concern the tasks of \<open>K\<close> only: one step of the life cycle at most (\<open>acts_on\<close>), and
  none (\<open>rests_on\<close>), as heartbeats do.
\<close>

definition acts_on ::
  "('w \<Rightarrow> bool) \<Rightarrow> ('w \<Rightarrow> TaskID \<Rightarrow> 'k option) \<Rightarrow> ('w \<Rightarrow> 'k \<Rightarrow> Task option) \<Rightarrow> 'k set \<Rightarrow> 'w \<Rightarrow> 'w \<Rightarrow> bool" where
  "acts_on I key view K w w' \<longleftrightarrow> I w' \<and> key w' = key w \<and> progresses (view w) (view w') \<and>
     (\<forall>k. k \<notin> K \<longrightarrow> view w' k = view w k)"

definition rests_on ::
  "('w \<Rightarrow> bool) \<Rightarrow> ('w \<Rightarrow> TaskID \<Rightarrow> 'k option) \<Rightarrow> ('w \<Rightarrow> 'k \<Rightarrow> Task option) \<Rightarrow> 'k set \<Rightarrow> 'w \<Rightarrow> 'w \<Rightarrow> bool" where
  "rests_on I key view K w w' \<longleftrightarrow> I w' \<and> key w' = key w \<and> rests (view w) (view w') \<and>
     (\<forall>k. k \<notin> K \<longrightarrow> view w' k = view w k)"

lemma rests_on_trans [trans]:
  "rests_on I key view K w w1 \<Longrightarrow> rests_on I key view K w1 w2 \<Longrightarrow> rests_on I key view K w w2"
  by (auto simp: rests_on_def intro: rests_trans)

lemma rests_then_acts [trans]:
  "rests_on I key view K w w1 \<Longrightarrow> acts_on I key view K w1 w2 \<Longrightarrow> acts_on I key view K w w2"
  by (auto simp: rests_on_def acts_on_def intro: rests_then_progresses)

lemma acts_then_same_view:
  "acts_on I key view K w w1 \<Longrightarrow> same_view I key view w1 w2 \<Longrightarrow> acts_on I key view K w w2"
  by (simp add: same_view_def acts_on_def)

lemma same_view_rests_on: "same_view I key view w w' \<Longrightarrow> rests_on I key view K w w'"
  by (simp add: same_view_def rests_on_def)

lemma rests_on_acts_on: "rests_on I key view K w w' \<Longrightarrow> acts_on I key view K w w'"
  by (auto simp: rests_on_def acts_on_def intro: rests_then_progresses)

lemma same_view_acts_on: "same_view I key view w w' \<Longrightarrow> acts_on I key view K w w'"
  by (simp add: same_view_def acts_on_def)

lemma step_acts_on:
  "step_ok I key view w w' \<Longrightarrow> (\<And>k. k \<notin> K \<Longrightarrow> view w' k = view w k) \<Longrightarrow>
     (\<And>k. k \<in> K \<Longrightarrow> view w k \<noteq> None \<Longrightarrow> view w' k \<noteq> None) \<Longrightarrow> carries (view w) (view w') \<Longrightarrow>
     acts_on I key view K w w'"
  by (auto simp: step_ok_def acts_on_def progresses_def dom_def) (metis option.distinct(1))

lemma same_view_trans:
  "same_view I key view w w1 \<Longrightarrow> same_view I key view w1 w2 \<Longrightarrow> same_view I key view w w2"
  by (simp add: same_view_def)

lemma same_view_step: "same_view I key view w w' \<Longrightarrow> step_ok I key view w w'"
  by (simp add: same_view_def step_ok_def)

lemma same_view_then_step:
  "same_view I key view w w1 \<Longrightarrow> step_ok I key view w1 w2 \<Longrightarrow> step_ok I key view w w2"
  by (simp add: same_view_def step_ok_def)

lemma step_then_same_view:
  "step_ok I key view w w1 \<Longrightarrow> same_view I key view w1 w2 \<Longrightarrow> step_ok I key view w w2"
  by (simp add: same_view_def step_ok_def)

locale side_ports =
  fixes broker :: "'r Broker"
    and now :: "'r Clock"
    and new_id :: "'r IDGenerator"
    and metrics :: "'r Metrics"
  assumes publish_quiet: "broker_Publish broker s i w = (rp, w') \<Longrightarrow> lib w' = lib w \<and> db w' = db w"
    and ack_quiet: "broker_Ack broker s g m w = (ra, w') \<Longrightarrow> lib w' = lib w \<and> db w' = db w"
    and now_quiet: "now w = (at, w') \<Longrightarrow> lib w' = lib w \<and> db w' = db w"
    and new_id_quiet: "new_id w = (i, w') \<Longrightarrow> lib w' = lib w \<and> db w' = db w"
    and enqueued_quiet: "lib (m_TaskEnqueued metrics d w) = lib w \<and> db (m_TaskEnqueued metrics d w) = db w"
    and completed_quiet: "lib (m_TaskCompleted metrics d w) = lib w \<and> db (m_TaskCompleted metrics d w) = db w"
    and failed_quiet: "lib (m_TaskFailed metrics w) = lib w \<and> db (m_TaskFailed metrics w) = db w"
    and retried_quiet: "lib (m_TaskRetried metrics w) = lib w \<and> db (m_TaskRetried metrics w) = db w"
    and dispatched_quiet: "lib (m_TaskDispatched metrics w) = lib w \<and> db (m_TaskDispatched metrics w) = db w"

locale use_cases = task_repository repo inv key view stored + side_ports broker now new_id metrics
  for repo :: "'r TaskRepository" and inv :: "'r world \<Rightarrow> bool"
    and key :: "'r world \<Rightarrow> TaskID \<Rightarrow> 'k option" and view :: "'r world \<Rightarrow> 'k \<Rightarrow> Task option"
    and stored :: "Task \<Rightarrow> Task \<Rightarrow> Task" and broker :: "'r Broker" and now :: "'r Clock"
    and new_id :: "'r IDGenerator" and metrics :: "'r Metrics"
begin

lemma quiet_same_view:
  "inv w \<Longrightarrow> lib w' = lib w \<and> db w' = db w \<Longrightarrow> same_view inv key view w w'"
  using frame [of w' w] by (simp add: same_view_def)

lemma quiet_refl: "inv w \<Longrightarrow> same_view inv key view w w"
  by (simp add: same_view_def)

lemma now_same: "inv w \<Longrightarrow> now w = (t, w') \<Longrightarrow> same_view inv key view w w'"
  by (intro quiet_same_view now_quiet)

lemma get_same:
  "inv w \<Longrightarrow> repo_GetByID repo tid w = (r, w') \<Longrightarrow> same_view inv key view w w'"
  using get_frame by (simp add: same_view_def)

lemma find_same:
  "inv w \<Longrightarrow> repo_FindByIdempotencyKey repo k w = (r, w') \<Longrightarrow> same_view inv key view w w'"
  using find_frame by (simp add: same_view_def)

lemma update_step:
  "inv w \<Longrightarrow> lawful m \<Longrightarrow> repo_UpdateTask repo tid m w = (r, w') \<Longrightarrow> step_ok inv key view w w'"
  using update_evolves by (simp add: step_ok_def)

lemma update_acts_on:
  assumes "inv w" "halting m" "key w tid = Some k" "repo_UpdateTask repo tid m w = (r, w')"
  shows "acts_on inv key view {k} w w'"
proof -
  have m: "lawful m" using assms(2) by (simp add: halting_def)
  have c: "carries (view w) (view w')" using assms(4,1,2) by (rule update_carries)
  from assms(4,1) m show ?thesis
  proof (cases rule: update_cases)
    case same
    then show ?thesis by (intro same_view_acts_on) (simp add: same_view_def)
  next
    case (stored k' t t' at)
    with assms(3) c show ?thesis
      by (intro step_acts_on [OF update_step [OF assms(1) m assms(4)]]) auto
  qed
qed

lemma heartbeat_rests_on:
  assumes "inv w" "key w tid = Some k" "repo_Heartbeat repo tid wid w = (r, w')"
  shows "rests_on inv key view {k} w w'"
  using heartbeat [OF assms(3,1)] assms(2)
  by (auto simp: rests_on_def same_identity_def intro!: rests_upd)

end

end
