(* ===== verification/Go_Json.thy ===== *)
theory Go_Json
  imports Prelude
begin

text \<open>
  \<^verbatim>\<open>encoding/json.Valid\<close>, which \<^verbatim>\<open>EnqueueCmd.Validate\<close> applies to a payload: the byte-driven scanner of
  the standard library with its stack of open objects and arrays, at most 10000 deep. The states
  inside \<^verbatim>\<open>true\<close>, \<^verbatim>\<open>false\<close> and \<^verbatim>\<open>null\<close> are \<open>InLiteral\<close> with the letters still to come. The scanner
  does not look at the UTF-8 structure of strings.
\<close>

datatype parse_state = ObjectKey | ObjectValue | ArrayValue

datatype scan_state =
    BeginValueOrEmpty | BeginValue | BeginStringOrEmpty | BeginString | EndValue | EndTop
  | InString | InStringEsc | InStringEscU nat
  | Neg | State1 | State0 | Dot | Dot0 | StateE | ESign | E0
  | InLiteral "byte list"

type_synonym scanner = "scan_state \<times> parse_state list"

definition json_space :: "byte \<Rightarrow> bool" where
  "json_space c \<longleftrightarrow> c = 0x20 \<or> c = 0x09 \<or> c = 0x0D \<or> c = 0x0A"

definition json_digit :: "byte \<Rightarrow> bool" where
  "json_digit c \<longleftrightarrow> 0x30 \<le> c \<and> c \<le> 0x39"

definition json_hex :: "byte \<Rightarrow> bool" where
  "json_hex c \<longleftrightarrow> json_digit c \<or> 0x61 \<le> c \<and> c \<le> 0x66 \<or> 0x41 \<le> c \<and> c \<le> 0x46"

definition maxNestingDepth :: nat where
  "maxNestingDepth = 10000"

definition pushParseState :: "parse_state \<Rightarrow> scan_state \<Rightarrow> parse_state list \<Rightarrow> scanner option" where
  "pushParseState p st ps = (if length (p # ps) \<le> maxNestingDepth then Some (st, p # ps) else None)"

definition popParseState :: "parse_state list \<Rightarrow> scanner option" where
  "popParseState ps = Some (if tl ps = [] then EndTop else EndValue, tl ps)"

definition stateEndTop :: "byte \<Rightarrow> parse_state list \<Rightarrow> scanner option" where
  "stateEndTop c ps = (if json_space c then Some (EndTop, ps) else None)"

definition stateEndValue :: "byte \<Rightarrow> parse_state list \<Rightarrow> scanner option" where
  "stateEndValue c ps =
     (case ps of
        [] \<Rightarrow> stateEndTop c ps
      | p # qs \<Rightarrow>
          if json_space c then Some (EndValue, ps)
          else (case p of
              ObjectKey \<Rightarrow> if c = 0x3A then Some (BeginValue, ObjectValue # qs) else None
            | ObjectValue \<Rightarrow>
                if c = 0x2C then Some (BeginString, ObjectKey # qs)
                else if c = 0x7D then popParseState ps else None
            | ArrayValue \<Rightarrow>
                if c = 0x2C then Some (BeginValue, ps)
                else if c = 0x5D then popParseState ps else None))"

definition stateBeginValue :: "byte \<Rightarrow> parse_state list \<Rightarrow> scanner option" where
  "stateBeginValue c ps =
     (if json_space c then Some (BeginValue, ps)
      else if c = 0x7B then pushParseState ObjectKey BeginStringOrEmpty ps
      else if c = 0x5B then pushParseState ArrayValue BeginValueOrEmpty ps
      else if c = 0x22 then Some (InString, ps)
      else if c = 0x2D then Some (Neg, ps)
      else if c = 0x30 then Some (State0, ps)
      else if c = 0x74 then Some (InLiteral [0x72, 0x75, 0x65], ps)
      else if c = 0x66 then Some (InLiteral [0x61, 0x6C, 0x73, 0x65], ps)
      else if c = 0x6E then Some (InLiteral [0x75, 0x6C, 0x6C], ps)
      else if json_digit c then Some (State1, ps)
      else None)"

definition stateBeginString :: "byte \<Rightarrow> parse_state list \<Rightarrow> scanner option" where
  "stateBeginString c ps =
     (if json_space c then Some (BeginString, ps)
      else if c = 0x22 then Some (InString, ps) else None)"

definition state0 :: "byte \<Rightarrow> parse_state list \<Rightarrow> scanner option" where
  "state0 c ps =
     (if c = 0x2E then Some (Dot, ps)
      else if c = 0x65 \<or> c = 0x45 then Some (StateE, ps) else stateEndValue c ps)"

definition stateESign :: "byte \<Rightarrow> parse_state list \<Rightarrow> scanner option" where
  "stateESign c ps = (if json_digit c then Some (E0, ps) else None)"

fun scan_step :: "byte \<Rightarrow> scanner \<Rightarrow> scanner option" where
  "scan_step c (BeginValueOrEmpty, ps) =
     (if json_space c then Some (BeginValueOrEmpty, ps)
      else if c = 0x5D then stateEndValue c ps else stateBeginValue c ps)"
| "scan_step c (BeginValue, ps) = stateBeginValue c ps"
| "scan_step c (BeginStringOrEmpty, ps) =
     (if json_space c then Some (BeginStringOrEmpty, ps)
      else if c = 0x7D then stateEndValue c (ObjectValue # tl ps) else stateBeginString c ps)"
| "scan_step c (BeginString, ps) = stateBeginString c ps"
| "scan_step c (EndValue, ps) = stateEndValue c ps"
| "scan_step c (EndTop, ps) = stateEndTop c ps"
| "scan_step c (InString, ps) =
     (if c = 0x22 then Some (EndValue, ps)
      else if c = 0x5C then Some (InStringEsc, ps)
      else if c < 0x20 then None else Some (InString, ps))"
| "scan_step c (InStringEsc, ps) =
     (if c \<in> {0x62, 0x66, 0x6E, 0x72, 0x74, 0x5C, 0x2F, 0x22} then Some (InString, ps)
      else if c = 0x75 then Some (InStringEscU 0, ps) else None)"
| "scan_step c (InStringEscU n, ps) =
     (if json_hex c then Some (if n < 3 then InStringEscU (Suc n) else InString, ps) else None)"
| "scan_step c (Neg, ps) =
     (if c = 0x30 then Some (State0, ps) else if json_digit c then Some (State1, ps) else None)"
| "scan_step c (State1, ps) = (if json_digit c then Some (State1, ps) else state0 c ps)"
| "scan_step c (State0, ps) = state0 c ps"
| "scan_step c (Dot, ps) = (if json_digit c then Some (Dot0, ps) else None)"
| "scan_step c (Dot0, ps) =
     (if json_digit c then Some (Dot0, ps)
      else if c = 0x65 \<or> c = 0x45 then Some (StateE, ps) else stateEndValue c ps)"
| "scan_step c (StateE, ps) =
     (if c = 0x2B \<or> c = 0x2D then Some (ESign, ps) else stateESign c ps)"
| "scan_step c (ESign, ps) = stateESign c ps"
| "scan_step c (E0, ps) = (if json_digit c then Some (E0, ps) else stateEndValue c ps)"
| "scan_step c (InLiteral [], ps) = None"
| "scan_step c (InLiteral (x # xs), ps) =
     (if c = x then Some (if xs = [] then EndValue else InLiteral xs, ps) else None)"

text \<open>\<^verbatim>\<open>checkValid\<close>: the loop over the bytes, then \<^verbatim>\<open>scan.eof\<close>, which tries a space when the value may still be open.\<close>

fun scan_bytes :: "byte list \<Rightarrow> scanner \<Rightarrow> scanner option" where
  "scan_bytes [] s = Some s"
| "scan_bytes (c # cs) s = (case scan_step c s of None \<Rightarrow> None | Some s' \<Rightarrow> scan_bytes cs s')"

definition scan_eof :: "scanner \<Rightarrow> bool" where
  "scan_eof s \<longleftrightarrow> fst s = EndTop \<or> (case scan_step 0x20 s of Some s' \<Rightarrow> fst s' = EndTop | None \<Rightarrow> False)"

definition json_Valid :: "byte list \<Rightarrow> bool" where
  "json_Valid data \<longleftrightarrow> (case scan_bytes data (BeginValue, []) of None \<Rightarrow> False | Some s \<Rightarrow> scan_eof s)"

end
