(* ===== verification/Json_Grammar.thy ===== *)
theory Json_Grammar
  imports Go_Json
begin

text \<open>
  What \<^verbatim>\<open>json.Valid\<close> accepts: the grammar of RFC 8259 as languages of bytes, with the two liberties
  of Go's scanner, that a string is not checked for UTF-8 and that objects and arrays are nested at
  most 10000 deep. Every state of the scanner denotes the language of what may follow, and a step
  takes the derivative of that language by the byte read.
\<close>

subsection \<open>Languages\<close>

type_synonym lang = "byte list set"

definition lang_cat :: "lang \<Rightarrow> lang \<Rightarrow> lang" where
  "lang_cat A B = {u @ v | u v. u \<in> A \<and> v \<in> B}"

inductive_set lang_star :: "lang \<Rightarrow> lang" for A where
  many_Nil [simp, intro]: "[] \<in> lang_star A"
| many_append: "u \<in> A \<Longrightarrow> v \<in> lang_star A \<Longrightarrow> u @ v \<in> lang_star A"

definition lang_opt :: "lang \<Rightarrow> lang" where
  "lang_opt A = insert [] A"

definition lang_class :: "(byte \<Rightarrow> bool) \<Rightarrow> lang" where
  "lang_class P = {[c] | c. P c}"

abbreviation lang_lit :: "byte \<Rightarrow> lang" where
  "lang_lit c \<equiv> {[c]}"

primrec lang_seq :: "lang list \<Rightarrow> lang" where
  "lang_seq [] = {[]}"
| "lang_seq (A # As) = lang_cat A (lang_seq As)"

subsection \<open>The grammar\<close>

definition json_ws :: lang where
  "json_ws = lang_star (lang_class json_space)"

definition json_digits :: lang where
  "json_digits = lang_star (lang_class json_digit)"

definition json_digits1 :: lang where
  "json_digits1 = lang_cat (lang_class json_digit) json_digits"

definition json_int :: lang where
  "json_int = lang_lit 0x30 \<union> lang_cat (lang_class (\<lambda>c. json_digit c \<and> c \<noteq> 0x30)) json_digits"

definition json_frac :: lang where
  "json_frac = lang_cat (lang_lit 0x2E) json_digits1"

definition json_exp :: lang where
  "json_exp = lang_seq [lang_class (\<lambda>c. c = 0x65 \<or> c = 0x45),
     lang_opt (lang_class (\<lambda>c. c = 0x2B \<or> c = 0x2D)), json_digits1]"

definition json_number :: lang where
  "json_number = lang_seq [lang_opt (lang_lit 0x2D), json_int, lang_opt json_frac, lang_opt json_exp]"

definition json_escape :: lang where
  "json_escape = lang_class (\<lambda>c. c \<in> {0x62, 0x66, 0x6E, 0x72, 0x74, 0x5C, 0x2F, 0x22}) \<union>
     lang_seq (lang_lit 0x75 # replicate 4 (lang_class json_hex))"

definition json_char :: lang where
  "json_char = lang_class (\<lambda>c. 0x20 \<le> c \<and> c \<noteq> 0x22 \<and> c \<noteq> 0x5C) \<union> lang_cat (lang_lit 0x5C) json_escape"

definition json_string_rest :: lang where
  "json_string_rest = lang_cat (lang_star json_char) (lang_lit 0x22)"

definition json_string :: lang where
  "json_string = lang_cat (lang_lit 0x22) json_string_rest"

definition json_scalar :: lang where
  "json_scalar =
     {[0x74, 0x72, 0x75, 0x65]} \<union> {[0x66, 0x61, 0x6C, 0x73, 0x65]} \<union> {[0x6E, 0x75, 0x6C, 0x6C]} \<union>
     json_number \<union> json_string"

definition json_member :: "lang \<Rightarrow> lang" where
  "json_member V = lang_seq [json_ws, json_string, json_ws, lang_lit 0x3A, json_ws, V, json_ws]"

definition json_element :: "lang \<Rightarrow> lang" where
  "json_element V = lang_seq [json_ws, V, json_ws]"

definition json_object_rest :: "lang \<Rightarrow> lang" where
  "json_object_rest V = lang_seq [json_ws, lang_lit 0x7D] \<union>
     lang_seq [json_member V, lang_star (lang_cat (lang_lit 0x2C) (json_member V)), lang_lit 0x7D]"

definition json_array_rest :: "lang \<Rightarrow> lang" where
  "json_array_rest V = lang_seq [json_ws, lang_lit 0x5D] \<union>
     lang_seq [json_element V, lang_star (lang_cat (lang_lit 0x2C) (json_element V)), lang_lit 0x5D]"

text \<open>The values with at most \<open>n\<close> objects and arrays inside each other.\<close>

primrec json_value :: "nat \<Rightarrow> lang" where
  "json_value 0 = json_scalar"
| "json_value (Suc n) = json_scalar \<union> lang_cat (lang_lit 0x7B) (json_object_rest (json_value n)) \<union>
     lang_cat (lang_lit 0x5B) (json_array_rest (json_value n))"

definition json_text :: lang where
  "json_text = lang_seq [json_ws, json_value maxNestingDepth, json_ws]"

subsection \<open>What a state of the scanner denoted\<close>

definition inner_value :: "parse_state list \<Rightarrow> lang" where
  "inner_value ps = json_value (maxNestingDepth - length ps)"

text \<open>What may follow a complete value, by the stack of what is open.\<close>

fun follow :: "parse_state list \<Rightarrow> lang" where
  "follow [] = json_ws"
| "follow (ObjectKey # ps) = lang_seq [json_ws, lang_lit 0x3A, json_ws, inner_value (ObjectKey # ps), json_ws,
     lang_star (lang_cat (lang_lit 0x2C) (json_member (inner_value (ObjectKey # ps)))), lang_lit 0x7D, follow ps]"
| "follow (ObjectValue # ps) = lang_seq [json_ws,
     lang_star (lang_cat (lang_lit 0x2C) (json_member (inner_value (ObjectValue # ps)))), lang_lit 0x7D, follow ps]"
| "follow (ArrayValue # ps) = lang_seq [json_ws,
     lang_star (lang_cat (lang_lit 0x2C) (json_element (inner_value (ArrayValue # ps)))), lang_lit 0x5D, follow ps]"

fun denoted :: "scanner \<Rightarrow> lang" where
  "denoted (BeginValueOrEmpty, ps) = lang_cat (json_array_rest (inner_value ps)) (follow (tl ps))"
| "denoted (BeginValue, ps) = lang_seq [json_ws, inner_value ps, follow ps]"
| "denoted (BeginStringOrEmpty, ps) = lang_cat (json_object_rest (inner_value ps)) (follow (tl ps))"
| "denoted (BeginString, ps) = lang_seq [json_ws, json_string, follow ps]"
| "denoted (EndValue, ps) = follow ps"
| "denoted (EndTop, ps) = json_ws"
| "denoted (InString, ps) = lang_cat json_string_rest (follow ps)"
| "denoted (InStringEsc, ps) = lang_seq [json_escape, json_string_rest, follow ps]"
| "denoted (InStringEscU n, ps) = lang_seq (replicate (4 - n) (lang_class json_hex) @ [json_string_rest, follow ps])"
| "denoted (Neg, ps) = lang_seq [json_int, lang_opt json_frac, lang_opt json_exp, follow ps]"
| "denoted (State1, ps) = lang_seq [json_digits, lang_opt json_frac, lang_opt json_exp, follow ps]"
| "denoted (State0, ps) = lang_seq [lang_opt json_frac, lang_opt json_exp, follow ps]"
| "denoted (Dot, ps) = lang_seq [json_digits1, lang_opt json_exp, follow ps]"
| "denoted (Dot0, ps) = lang_seq [json_digits, lang_opt json_exp, follow ps]"
| "denoted (StateE, ps) = lang_seq [lang_opt (lang_class (\<lambda>c. c = 0x2B \<or> c = 0x2D)), json_digits1, follow ps]"
| "denoted (ESign, ps) = lang_cat json_digits1 (follow ps)"
| "denoted (E0, ps) = lang_cat json_digits (follow ps)"
| "denoted (InLiteral xs, ps) = lang_cat {xs} (follow ps)"

text \<open>The states the scanner gets into.\<close>

fun proper_scanner :: "scanner \<Rightarrow> bool" where
  "proper_scanner (st, ps) \<longleftrightarrow> length ps \<le> maxNestingDepth \<and>
     (case st of
        BeginValueOrEmpty \<Rightarrow> ps \<noteq> [] \<and> hd ps = ArrayValue
      | BeginStringOrEmpty \<Rightarrow> ps \<noteq> [] \<and> hd ps = ObjectKey
      | BeginString \<Rightarrow> ps \<noteq> [] \<and> hd ps = ObjectKey
      | EndTop \<Rightarrow> ps = []
      | InStringEscU n \<Rightarrow> n \<le> 3
      | InLiteral xs \<Rightarrow> xs \<noteq> []
      | _ \<Rightarrow> True)"

definition lang_deriv :: "byte \<Rightarrow> lang \<Rightarrow> lang" where
  "lang_deriv c A = {u. c # u \<in> A}"

definition continuation :: "scanner option \<Rightarrow> lang" where
  "continuation r = (case r of None \<Rightarrow> {} | Some s \<Rightarrow> denoted s)"

subsection \<open>Derivatives\<close>

named_theorems deriv_simps \<open>derivatives of languages by a byte\<close>

lemma in_cat [simp]: "[] \<in> lang_cat A B \<longleftrightarrow> [] \<in> A \<and> [] \<in> B"
  by (auto simp: lang_cat_def)

lemma cat_simps [simp]:
  "lang_cat {} A = {}" "lang_cat A {} = {}" "lang_cat {[]} A = A" "lang_cat A {[]} = A"
  by (auto simp: lang_cat_def)

lemma catI: "u \<in> A \<Longrightarrow> v \<in> B \<Longrightarrow> u @ v \<in> lang_cat A B"
  by (auto simp: lang_cat_def)

lemma catE: assumes "w \<in> lang_cat A B" obtains u v where "w = u @ v" "u \<in> A" "v \<in> B"
  using assms by (auto simp: lang_cat_def)

lemma cat_assoc [simp]: "lang_cat (lang_cat A B) C = lang_cat A (lang_cat B C)"
  by (intro set_eqI iffI; elim catE; simp; metis append_assoc catI)

lemma cat_union:
  "lang_cat (A \<union> B) C = lang_cat A C \<union> lang_cat B C"
  "lang_cat A (B \<union> C) = lang_cat A B \<union> lang_cat A C"
  by (auto simp: lang_cat_def)

lemma seq_append: "lang_seq (As @ Bs) = lang_cat (lang_seq As) (lang_seq Bs)"
  by (induction As) simp_all

lemma deriv_sets [deriv_simps]:
  "lang_deriv c {} = {}" "lang_deriv c {[]} = {}" "lang_deriv c (A \<union> B) = lang_deriv c A \<union> lang_deriv c B"
  "lang_deriv c (insert (x # xs) A) = (if c = x then {xs} else {}) \<union> lang_deriv c A"
  "lang_deriv c (insert [] A) = lang_deriv c A"
  "lang_deriv c (lang_opt A) = lang_deriv c A"
  by (auto simp: lang_deriv_def lang_opt_def)

lemma deriv_cat: "lang_deriv c (lang_cat A B) = lang_cat (lang_deriv c A) B \<union> (if [] \<in> A then lang_deriv c B else {})"
proof (intro set_eqI iffI)
  fix w
  assume "w \<in> lang_deriv c (lang_cat A B)"
  then obtain u v where "c # w = u @ v" "u \<in> A" "v \<in> B" by (auto simp: lang_deriv_def elim: catE)
  then show "w \<in> lang_cat (lang_deriv c A) B \<union> (if [] \<in> A then lang_deriv c B else {})"
    by (cases u) (auto simp: lang_deriv_def intro: catI)
next
  fix w
  assume "w \<in> lang_cat (lang_deriv c A) B \<union> (if [] \<in> A then lang_deriv c B else {})"
  then consider "w \<in> lang_cat (lang_deriv c A) B" | "[] \<in> A" "c # w \<in> B" by (auto simp: lang_deriv_def split: if_splits)
  then show "w \<in> lang_deriv c (lang_cat A B)"
  proof cases
    case 1
    then obtain u v where "w = u @ v" "c # u \<in> A" "v \<in> B" by (auto simp: lang_deriv_def elim: catE)
    then show ?thesis using catI [of "c # u" A v B] by (simp add: lang_deriv_def)
  next
    case 2
    then show ?thesis using catI [of "[]" A "c # w" B] by (simp add: lang_deriv_def)
  qed
qed

lemma deriv_cat_solid [deriv_simps]: "[] \<notin> A \<Longrightarrow> lang_deriv c (lang_cat A B) = lang_cat (lang_deriv c A) B"
  by (simp add: deriv_cat)

lemma deriv_one_of [deriv_simps]: "lang_deriv c (lang_class P) = (if P c then {[]} else {})"
  by (auto simp: lang_deriv_def lang_class_def)

lemma deriv_many: "lang_deriv c (lang_star A) = lang_cat (lang_deriv c A) (lang_star A)"
proof (intro set_eqI iffI)
  fix u
  have "cu \<in> lang_star A \<Longrightarrow> cu = c # u \<Longrightarrow> u \<in> lang_cat (lang_deriv c A) (lang_star A)" for cu
  proof (induction rule: lang_star.induct)
    case (many_append x v)
    then show ?case by (cases x) (auto simp: lang_deriv_def intro: catI)
  qed simp
  then show "u \<in> lang_deriv c (lang_star A) \<Longrightarrow> u \<in> lang_cat (lang_deriv c A) (lang_star A)" by (simp add: lang_deriv_def)
next
  fix u
  assume "u \<in> lang_cat (lang_deriv c A) (lang_star A)"
  then show "u \<in> lang_deriv c (lang_star A)"
    by (elim catE) (metis append_Cons lang_deriv_def many_append mem_Collect_eq)
qed

lemma Nil_one_of [simp]: "[] \<notin> lang_class P"
  by (simp add: lang_class_def)

lemma cat_maybe: "lang_cat (lang_opt A) B = B \<union> lang_cat A B"
  by (auto simp: lang_opt_def lang_cat_def)

lemma deriv_cats [deriv_simps]:
  "lang_deriv c (lang_cat {x # xs} B) = (if c = x then lang_cat {xs} B else {})"
  "lang_deriv c (lang_cat (lang_class P) B) = (if P c then B else {})"
  "lang_deriv c (lang_cat (lang_opt A) B) = lang_cat (lang_deriv c A) B \<union> lang_deriv c B"
  "lang_deriv c (lang_cat (lang_star A) B) = lang_cat (lang_deriv c A) (lang_cat (lang_star A) B) \<union> lang_deriv c B"
  by (auto simp: deriv_cat deriv_simps deriv_many cat_maybe)

lemma deriv_ws [deriv_simps]: "lang_deriv c (lang_cat json_ws B) = (if json_space c then lang_cat json_ws B else {}) \<union> lang_deriv c B"
  "lang_deriv c json_ws = (if json_space c then json_ws else {})"
  by (simp_all add: json_ws_def deriv_simps deriv_many)

lemma deriv_digits [deriv_simps]:
  "lang_deriv c (lang_cat json_digits B) = (if json_digit c then lang_cat json_digits B else {}) \<union> lang_deriv c B"
  "lang_deriv c (lang_cat json_digits1 B) = (if json_digit c then lang_cat json_digits B else {})"
  "lang_deriv c json_digits = (if json_digit c then json_digits else {})" "lang_deriv c json_digits1 = (if json_digit c then json_digits else {})"
  by (simp_all add: json_digits_def json_digits1_def deriv_simps deriv_many)

lemma Nil_ws [simp]: "[] \<in> json_ws" "[] \<in> json_digits" "[] \<notin> json_digits1" "[] \<in> lang_opt A"
  by (auto simp: json_ws_def json_digits_def json_digits1_def lang_opt_def)

subsection \<open>A step is a derivative\<close>

lemma continues_simps [simp]:
  "continuation None = {}" "continuation (Some s) = denoted s"
  "continuation (if b then r else r') = (if b then continuation r else continuation r')"
  by (simp_all add: continuation_def)

lemma continues_pop [simp]: "continuation (popParseState (p # ps)) = follow ps"
  by (simp add: popParseState_def)

lemmas grammar_defs = json_member_def json_element_def json_object_rest_def json_array_rest_def inner_value_def

lemma rest_step: "lang_deriv c (follow ps) = continuation (stateEndValue c ps)"
proof (cases ps rule: follow.cases)
  case 1
  then show ?thesis by (simp add: stateEndValue_def stateEndTop_def deriv_simps)
next
  case (2 qs)
  then show ?thesis by (auto simp: stateEndValue_def deriv_simps grammar_defs json_space_def)
next
  case (3 qs)
  then show ?thesis by (auto simp: stateEndValue_def deriv_simps grammar_defs json_space_def)
next
  case (4 qs)
  then show ?thesis by (auto simp: stateEndValue_def deriv_simps grammar_defs json_space_def)
qed

lemma digit_apart:
  assumes "json_digit c"
  shows "\<not> json_space c" "c \<noteq> 0x2C" "c \<noteq> 0x3A" "c \<noteq> 0x5D" "c \<noteq> 0x7D" "c \<noteq> 0x2E" "c \<noteq> 0x65" "c \<noteq> 0x45"
    "c \<noteq> 0x7B" "c \<noteq> 0x5B" "c \<noteq> 0x22" "c \<noteq> 0x2D" "c \<noteq> 0x2B" "c \<noteq> 0x74" "c \<noteq> 0x66" "c \<noteq> 0x6E"
  using assms by (auto simp: json_digit_def json_space_def)

lemma class_numeral [simp]:
  "json_digit (numeral n) \<longleftrightarrow> 0x30 \<le> (numeral n :: byte) \<and> (numeral n :: byte) \<le> 0x39"
  "json_space (numeral n) \<longleftrightarrow> (numeral n :: byte) \<in> {0x20, 0x09, 0x0D, 0x0A}"
  by (auto simp: json_digit_def json_space_def)

lemma digit_ends: "json_digit c \<Longrightarrow> stateEndValue c ps = None"
  using digit_apart [of c] by (simp add: stateEndValue_def stateEndTop_def split: list.splits parse_state.splits)

lemma frac_exp_ends: "c = 0x2E \<or> c = 0x65 \<or> c = 0x45 \<or> c = 0x2D \<or> c = 0x2B \<Longrightarrow> stateEndValue c ps = None"
  by (auto simp: stateEndValue_def stateEndTop_def json_space_def split: list.splits parse_state.splits)

abbreviation json_signs :: lang where
  "json_signs \<equiv> lang_class (\<lambda>c. c = 0x2B \<or> c = 0x2D)"

lemma deriv_parts [deriv_simps]:
  "lang_deriv c json_frac = (if c = 0x2E then json_digits1 else {})"
  "lang_deriv c json_exp = (if c = 0x65 \<or> c = 0x45 then lang_cat (lang_opt json_signs) json_digits1 else {})"
  "lang_deriv c json_int = (if c = 0x30 then {[]} else if json_digit c then json_digits else {})"
  by (auto simp: json_frac_def json_exp_def json_int_def deriv_simps deriv_cat)

lemma Nil_parts [simp]: "[] \<notin> json_frac" "[] \<notin> json_exp" "[] \<notin> json_int" "[] \<notin> json_escape" "[] \<notin> json_char"
  "[] \<notin> json_string_rest" "[] \<notin> json_string" "[] \<notin> json_number" "[] \<notin> json_scalar"
  by (auto simp: json_frac_def json_exp_def json_int_def json_escape_def json_char_def json_string_rest_def json_string_def
      json_number_def json_scalar_def)

text \<open>The states inside a number.\<close>

lemma state0_step: "lang_deriv c (lang_seq [lang_opt json_frac, lang_opt json_exp, follow ps]) = continuation (state0 c ps)"
  by (auto simp: deriv_simps rest_step state0_def frac_exp_ends)

lemma number_steps:
  "lang_deriv c (denoted (State0, ps)) = continuation (scan_step c (State0, ps))"
  "lang_deriv c (denoted (State1, ps)) = continuation (scan_step c (State1, ps))"
  "lang_deriv c (denoted (Neg, ps)) = continuation (scan_step c (Neg, ps))"
  "lang_deriv c (denoted (Dot, ps)) = continuation (scan_step c (Dot, ps))"
  "lang_deriv c (denoted (Dot0, ps)) = continuation (scan_step c (Dot0, ps))"
  "lang_deriv c (denoted (StateE, ps)) = continuation (scan_step c (StateE, ps))"
  "lang_deriv c (denoted (ESign, ps)) = continuation (scan_step c (ESign, ps))"
  "lang_deriv c (denoted (E0, ps)) = continuation (scan_step c (E0, ps))"
  by (auto simp: deriv_simps rest_step state0_def stateESign_def frac_exp_ends digit_ends digit_apart)

text \<open>The states inside a string.\<close>

lemma deriv_escape [deriv_simps]:
  "lang_deriv c json_escape =
     (if c \<in> {0x62, 0x66, 0x6E, 0x72, 0x74, 0x5C, 0x2F, 0x22} then {[]}
      else if c = 0x75 then lang_seq (replicate 4 (lang_class json_hex)) else {})"
proof (cases "c = 0x75")
  case True
  then show ?thesis by (simp add: json_escape_def deriv_simps)
next
  case False
  then show ?thesis unfolding json_escape_def lang_seq.simps deriv_sets deriv_one_of deriv_cats by simp
qed

lemma deriv_char [deriv_simps]:
  "lang_deriv c json_char =
     (if c = 0x22 then {} else if c = 0x5C then json_escape else if c < 0x20 then {} else {[]})"
  unfolding json_char_def deriv_sets deriv_one_of deriv_cats by (simp add: linorder_not_less [symmetric])

lemma deriv_string_rest [deriv_simps]:
  "lang_deriv c (lang_cat json_string_rest B) =
     (if c = 0x22 then B else if c = 0x5C then lang_cat json_escape (lang_cat json_string_rest B)
      else if c < 0x20 then {} else lang_cat json_string_rest B)"
  by (auto simp: json_string_rest_def deriv_simps)

lemma string_steps:
  "lang_deriv c (denoted (InString, ps)) = continuation (scan_step c (InString, ps))"
  "lang_deriv c (denoted (InStringEsc, ps)) = continuation (scan_step c (InStringEsc, ps))"
  by (auto simp: deriv_simps seq_append)

lemma hex_step:
  assumes "n \<le> 3"
  shows "lang_deriv c (denoted (InStringEscU n, ps)) = continuation (scan_step c (InStringEscU n, ps))"
proof -
  have "4 - n = Suc (3 - n)" "4 - Suc n = 3 - n" using assms by simp_all
  then show ?thesis using assms by (cases "n < 3") (simp_all add: deriv_simps)
qed

lemma literal_step:
  "xs \<noteq> [] \<Longrightarrow> lang_deriv c (denoted (InLiteral xs, ps)) = continuation (scan_step c (InLiteral xs, ps))"
  by (cases xs) (auto simp: deriv_simps)

text \<open>The states before a value.\<close>

lemma deriv_scalar:
  "lang_deriv c json_scalar =
     (if c = 0x22 then json_string_rest
      else if c = 0x2D then lang_seq [json_int, lang_opt json_frac, lang_opt json_exp]
      else if c = 0x30 then lang_seq [lang_opt json_frac, lang_opt json_exp]
      else if c = 0x74 then {[0x72, 0x75, 0x65]}
      else if c = 0x66 then {[0x61, 0x6C, 0x73, 0x65]}
      else if c = 0x6E then {[0x75, 0x6C, 0x6C]}
      else if json_digit c then lang_seq [json_digits, lang_opt json_frac, lang_opt json_exp] else {})"
proof -
  have "lang_deriv c json_number =
     (if c = 0x2D then lang_seq [json_int, lang_opt json_frac, lang_opt json_exp]
      else if c = 0x30 then lang_seq [lang_opt json_frac, lang_opt json_exp]
      else if json_digit c then lang_seq [json_digits, lang_opt json_frac, lang_opt json_exp] else {})"
    by (simp add: json_number_def deriv_simps)
  moreover have "lang_deriv c json_string = (if c = 0x22 then json_string_rest else {})"
    by (simp add: json_string_def deriv_simps)
  ultimately show ?thesis unfolding json_scalar_def deriv_sets by simp
qed

lemma Nil_value [simp]: "[] \<notin> json_value n"
  by (cases n) simp_all

lemma deriv_value:
  "lang_deriv c (json_value n) = lang_deriv c json_scalar \<union>
     (case n of 0 \<Rightarrow> {} | Suc m \<Rightarrow>
        if c = 0x7B then json_object_rest (json_value m)
        else if c = 0x5B then json_array_rest (json_value m) else {})"
  by (cases n) (simp_all add: deriv_simps)

lemma value_step:
  assumes "length ps \<le> maxNestingDepth"
  shows "lang_deriv c (denoted (BeginValue, ps)) = continuation (stateBeginValue c ps)"
proof (cases "length ps = maxNestingDepth")
  case True
  then have "inner_value ps = json_value 0" by (simp add: inner_value_def)
  then show ?thesis
    using True by (auto simp: deriv_simps deriv_value deriv_scalar stateBeginValue_def pushParseState_def digit_apart)
next
  case False
  then obtain m where m: "maxNestingDepth - length ps = Suc m" "maxNestingDepth - Suc (length ps) = m"
    using assms by (metis Suc_diff_Suc le_neq_implies_less)
  then have "inner_value ps = json_value (Suc m)" "\<And>p. inner_value (p # ps) = json_value m" by (simp_all add: inner_value_def)
  then show ?thesis
    using assms False
    by (auto simp: deriv_simps deriv_value deriv_scalar stateBeginValue_def pushParseState_def digit_apart)
qed

lemma deriv_json_string [deriv_simps]: "lang_deriv c json_string = (if c = 0x22 then json_string_rest else {})"
  by (simp add: json_string_def deriv_simps)

lemma begin_string_step:
  "lang_deriv c (denoted (BeginString, ps)) = continuation (stateBeginString c ps)"
  by (auto simp: deriv_simps stateBeginString_def)

lemma begin_key_step:
  "lang_deriv c (denoted (BeginStringOrEmpty, ObjectKey # qs)) = continuation (scan_step c (BeginStringOrEmpty, ObjectKey # qs))"
  by (auto simp: deriv_simps grammar_defs cat_union stateBeginString_def stateEndValue_def)

lemma array_start:
  "denoted (BeginValueOrEmpty, ArrayValue # qs) =
     lang_seq [json_ws, lang_lit 0x5D, follow qs] \<union> denoted (BeginValue, ArrayValue # qs)"
  by (simp add: grammar_defs cat_union)

lemma begin_element_step:
  assumes "length (ArrayValue # qs) \<le> maxNestingDepth"
  shows "lang_deriv c (denoted (BeginValueOrEmpty, ArrayValue # qs)) =
     continuation (scan_step c (BeginValueOrEmpty, ArrayValue # qs))"
proof -
  have "lang_deriv c (denoted (BeginValueOrEmpty, ArrayValue # qs)) =
      (if json_space c then lang_seq [json_ws, lang_lit 0x5D, follow qs] else if c = 0x5D then follow qs else {}) \<union>
      continuation (stateBeginValue c (ArrayValue # qs))"
    unfolding array_start deriv_sets value_step [OF assms] by (auto simp: deriv_simps)
  also have "\<dots> = continuation (scan_step c (BeginValueOrEmpty, ArrayValue # qs))"
    using array_start [of qs] by (auto simp: stateBeginValue_def stateEndValue_def)
  finally show ?thesis .
qed

lemma scan_step_deriv:
  assumes "proper_scanner (st, ps)"
  shows "lang_deriv c (denoted (st, ps)) = continuation (scan_step c (st, ps))"
proof (cases st)
  case BeginValueOrEmpty
  then obtain qs where "ps = ArrayValue # qs" using assms by (cases ps) simp_all
  then show ?thesis using BeginValueOrEmpty assms begin_element_step by simp
next
  case BeginStringOrEmpty
  then obtain qs where "ps = ObjectKey # qs" using assms by (cases ps) simp_all
  then show ?thesis using BeginStringOrEmpty begin_key_step by simp
next
  case EndTop
  then show ?thesis by (simp add: deriv_simps stateEndTop_def)
qed (use assms value_step [of ps c] begin_string_step [of c ps] rest_step [of c ps] string_steps number_steps
      hex_step literal_step in simp_all)

lemma proper_step: "scan_step c s = Some s' \<Longrightarrow> proper_scanner s \<Longrightarrow> proper_scanner s'"
  by (induction c s rule: scan_step.induct)
    (auto simp: stateBeginValue_def stateEndValue_def stateEndTop_def stateBeginString_def state0_def stateESign_def
      pushParseState_def popParseState_def tl_Nil split: if_splits list.splits parse_state.splits)

lemma scan_literal:
  "xs \<noteq> [] \<Longrightarrow> scan_step c (InLiteral xs, ps) =
     (if c = hd xs then Some (if tl xs = [] then EndValue else InLiteral (tl xs), ps) else None)"
  by (cases xs) simp_all

lemma eof_nullable: "proper_scanner (st, ps) \<Longrightarrow> scan_eof (st, ps) \<longleftrightarrow> [] \<in> denoted (st, ps)"
  by (cases ps rule: follow.cases; cases st)
    (auto simp: scan_eof_def grammar_defs state0_def stateEndValue_def stateEndTop_def stateBeginValue_def stateBeginString_def
      stateESign_def seq_append scan_literal split: list.splits)

text \<open>The scanner accepts from a state what the state denotes.\<close>

lemma scan_accepts:
  "proper_scanner s \<Longrightarrow> (case scan_bytes cs s of None \<Rightarrow> False | Some s' \<Rightarrow> scan_eof s') \<longleftrightarrow> cs \<in> denoted s"
proof (induction cs arbitrary: s)
  case Nil
  then show ?case by (cases s) (simp add: eof_nullable)
next
  case (Cons c cs)
  have "c # cs \<in> denoted s \<longleftrightarrow> cs \<in> continuation (scan_step c s)"
    using scan_step_deriv [of "fst s" "snd s" c] Cons.prems by (simp add: lang_deriv_def set_eq_iff)
  also have "\<dots> \<longleftrightarrow> (case scan_bytes (c # cs) s of None \<Rightarrow> False | Some s' \<Rightarrow> scan_eof s')"
    using Cons.IH proper_step [OF _ Cons.prems] by (cases "scan_step c s") simp_all
  finally show ?case by simp
qed

lemma json_Valid_grammar: "json_Valid data \<longleftrightarrow> data \<in> json_text"
  using scan_accepts [of "(BeginValue, [])" data] by (simp add: json_Valid_def json_text_def inner_value_def)

end
