(* ===== verification/Enqueue.thy ===== *)
theory Enqueue
  imports Use_Case_Contract Json_Grammar
begin

text \<open>
  Registering a task (\<^verbatim>\<open>src/internal/usecase/enqueue.go\<close>): the command, its validation with Go's
  \<^verbatim>\<open>strings.TrimSpace\<close> over the UTF-8 bytes of the type, and \<^verbatim>\<open>Handle\<close> with its three readings of the
  clock. Tracing and logging calls have no state here.
\<close>

subsection \<open>strings.TrimSpace\<close>

text \<open>The UTF-8 encodings of the runes for which \<^verbatim>\<open>unicode.IsSpace\<close> holds.\<close>

definition space_encodings :: "string list" where
  "space_encodings =
     [[CHR 0x09], [CHR 0x0A], [CHR 0x0B], [CHR 0x0C], [CHR 0x0D], [CHR 0x20],
      [CHR 0xC2, CHR 0x85], [CHR 0xC2, CHR 0xA0], [CHR 0xE1, CHR 0x9A, CHR 0x80],
      [CHR 0xE2, CHR 0x80, CHR 0x80], [CHR 0xE2, CHR 0x80, CHR 0x81], [CHR 0xE2, CHR 0x80, CHR 0x82],
      [CHR 0xE2, CHR 0x80, CHR 0x83], [CHR 0xE2, CHR 0x80, CHR 0x84], [CHR 0xE2, CHR 0x80, CHR 0x85],
      [CHR 0xE2, CHR 0x80, CHR 0x86], [CHR 0xE2, CHR 0x80, CHR 0x87], [CHR 0xE2, CHR 0x80, CHR 0x88],
      [CHR 0xE2, CHR 0x80, CHR 0x89], [CHR 0xE2, CHR 0x80, CHR 0x8A], [CHR 0xE2, CHR 0x80, CHR 0xA8],
      [CHR 0xE2, CHR 0x80, CHR 0xA9], [CHR 0xE2, CHR 0x80, CHR 0xAF], [CHR 0xE2, CHR 0x81, CHR 0x9F],
      [CHR 0xE3, CHR 0x80, CHR 0x80]]"

text \<open>The length of the encoding of \<open>codes\<close> that starts a string, 0 when none does.\<close>

fun leading :: "string list \<Rightarrow> string \<Rightarrow> nat" where
  "leading [] s = 0"
| "leading (c # cs) s = (if c \<noteq> [] \<and> take (length c) s = c then length c else leading cs s)"

function trim_codes :: "string list \<Rightarrow> string \<Rightarrow> string" where
  "trim_codes codes s =
     (if s = [] \<or> leading codes s = 0 then s else trim_codes codes (drop (leading codes s) s))"
  by pat_completeness auto
termination
  by (relation "measure (length \<circ> snd)") auto

declare trim_codes.simps [simp del]

definition TrimSpace :: "string \<Rightarrow> string" where
  "TrimSpace s = rev (trim_codes (map rev space_encodings) (rev (trim_codes space_encodings s)))"

subsection \<open>The command\<close>

record EnqueueCmd =
  c_Type :: string
  c_Payload :: bytes
  c_Priority :: Priority
  c_Dependencies :: "TaskID list"
  c_ScheduledAt :: gotime
  c_RetryLimit :: go_int
  c_IdempotencyKey :: string

definition Validate :: "EnqueueCmd \<Rightarrow> go_error option" where
  "Validate c =
     (if TrimSpace (c_Type c) = [] then
        Some (Wrapped [] ErrInvalidArgument '': field 'type' is required'')
      else if 0 < len_bytes (c_Payload c) \<and> \<not> json_Valid (the (c_Payload c)) then
        Some (Wrapped [] ErrInvalidArgument '': field 'payload' must be valid JSON'')
      else Priority_Validate (c_Priority c))"

subsection \<open>The use case\<close>

record 'r EnqueueUseCase =
  eu_repo :: "'r TaskRepository"
  eu_clock :: "'r Clock"
  eu_ids :: "'r IDGenerator"
  eu_metrics :: "'r Metrics"
  eu_knownTypes :: "string set"

definition NewEnqueue :: "'r TaskRepository \<Rightarrow> 'r Clock \<Rightarrow> 'r IDGenerator \<Rightarrow> 'r Metrics \<Rightarrow> string list \<Rightarrow> 'r EnqueueUseCase" where
  "NewEnqueue repo clk ids metrics knownTypes =
     \<lparr>eu_repo = repo, eu_clock = clk, eu_ids = ids, eu_metrics = metrics,
      eu_knownTypes = fold insert knownTypes {}\<rparr>"

text \<open>Steps 4 and 5 of \<^verbatim>\<open>Handle\<close>: the new task and its registration.\<close>

definition new_task :: "EnqueueCmd \<Rightarrow> gotime \<Rightarrow> TaskID \<Rightarrow> Task" where
  "new_task cmd now tid =
     \<lparr>ID = tid, Type = c_Type cmd, Payload = c_Payload cmd, Priority = c_Priority cmd,
      Status = StatusPending, Dependencies = c_Dependencies cmd,
      ScheduledAt = (if IsZero (c_ScheduledAt cmd) then now else c_ScheduledAt cmd),
      CreatedAt = now, UpdatedAt = now, AttemptCount = 0, RetryLimit = c_RetryLimit cmd,
      LastError = [], Result = None, WorkerID = [], IdempotencyKey = c_IdempotencyKey cmd\<rparr>"

definition register :: "'r EnqueueUseCase \<Rightarrow> EnqueueCmd \<Rightarrow> gotime \<Rightarrow> (go_error, TaskID, 'r world) op" where
  "register u cmd start w =
     (let (now, w1) = eu_clock u w;
          (tid, w2) = eu_ids u w1;
          task = new_task cmd now tid in
      case repo_Create (eu_repo u) task w2 of
        (Inl err, w3) \<Rightarrow> (Inl (errorf ''enqueue: create: '' err), w3)
      | (Inr _, w3) \<Rightarrow>
          (let (done, w4) = eu_clock u w3;
               latency = time_Sub done start in
           (Inr (ID task), m_TaskEnqueued (eu_metrics u) latency w4)))"

definition Enqueue_Handle :: "'r EnqueueUseCase \<Rightarrow> EnqueueCmd \<Rightarrow> (go_error, TaskID, 'r world) op" where
  "Enqueue_Handle u cmd w0 =
     (let (start, w) = eu_clock u w0 in
      case Validate cmd of
        Some err \<Rightarrow> (Inl err, w)
      | None \<Rightarrow>
          if eu_knownTypes u \<noteq> {} \<and> c_Type cmd \<notin> eu_knownTypes u then
            (Inl (Wrapped [] ErrInvalidArgument ('': unknown task type '' @ fmt_q (lib w) (c_Type cmd))), w)
          else if c_IdempotencyKey cmd \<noteq> [] then
            (case repo_FindByIdempotencyKey (eu_repo u) (c_IdempotencyKey cmd) w of
               (Inr existing, w1) \<Rightarrow> (Inr (ID existing), w1)
             | (Inl err, w1) \<Rightarrow>
                 if \<not> errors_Is err ErrNotFound
                 then (Inl (errorf ''enqueue: idempotency check: '' err), w1)
                 else register u cmd start w1)
          else register u cmd start w)"

text \<open>What the command has to satisfy, and which error each violation gives.\<close>

definition valid_cmd :: "EnqueueCmd \<Rightarrow> bool" where
  "valid_cmd c \<longleftrightarrow>
     TrimSpace (c_Type c) \<noteq> [] \<and>
     (\<forall>p. c_Payload c = Some p \<longrightarrow> p = [] \<or> json_Valid p) \<and> c_Priority c \<le> 10"

text \<open>The same of a task.\<close>

definition valid_task :: "Task \<Rightarrow> bool" where
  "valid_task t \<longleftrightarrow>
     TrimSpace (Type t) \<noteq> [] \<and>
     (\<forall>p. Payload t = Some p \<longrightarrow> p = [] \<or> json_Valid p) \<and> Priority t \<le> 10"

subsection \<open>What TrimSpace removes\<close>

lemma space_encodings_prefix_free:
  "\<forall>c \<in> set space_encodings. leading space_encodings (c @ s) = length c \<and> c \<noteq> []"
  by (simp add: space_encodings_def)

lemma leading_code: "leading cs s \<noteq> 0 \<Longrightarrow> take (leading cs s) s \<in> set cs \<and> leading cs s \<le> length s"
proof (induction cs)
  case Nil
  then show ?case by simp
next
  case (Cons c cs)
  show ?case
  proof (cases "c \<noteq> [] \<and> take (length c) s = c")
    case True
    then have "length c \<le> length s" by (metis length_take min.cobounded1)
    with True show ?thesis by simp
  next
    case False
    with Cons show ?thesis by auto
  qed
qed

lemma trim_codes_split:
  "\<exists>ws. set ws \<subseteq> set cs \<and> s = concat ws @ trim_codes cs s"
proof (induction cs s rule: trim_codes.induct)
  case (1 cs s)
  show ?case
  proof (cases "s = [] \<or> leading cs s = 0")
    case True
    then show ?thesis by (intro exI [of _ "[]"]) (auto simp: trim_codes.simps [of cs s])
  next
    case False
    with 1 obtain ws where ws: "set ws \<subseteq> set cs"
      "drop (leading cs s) s = concat ws @ trim_codes cs (drop (leading cs s) s)" by auto
    have "s = concat (take (leading cs s) s # ws) @ trim_codes cs s"
      using False ws(2) append_take_drop_id [of "leading cs s" s]
      by (simp add: trim_codes.simps [of cs s])
    moreover have "set (take (leading cs s) s # ws) \<subseteq> set cs"
      using ws(1) leading_code [of cs s] False by auto
    ultimately show ?thesis by blast
  qed
qed

lemma trim_codes_stops: "trim_codes cs s = [] \<or> leading cs (trim_codes cs s) = 0"
proof (induction cs s rule: trim_codes.induct)
  case (1 cs s)
  then show ?case
    by (cases "s = [] \<or> leading cs s = 0") (simp_all add: trim_codes.simps [of cs s])
qed

lemma trim_spaces: "set ws \<subseteq> set space_encodings \<Longrightarrow> trim_codes space_encodings (concat ws) = []"
proof (induction ws)
  case Nil
  then show ?case by (simp add: trim_codes.simps)
next
  case (Cons c ws)
  then have "leading space_encodings (c @ concat ws) = length c" "c \<noteq> []"
    using space_encodings_prefix_free by auto
  with Cons show ?case by (simp add: trim_codes.simps [of _ "c @ concat ws"])
qed

lemma rev_concat_codes:
  "set ws \<subseteq> rev ` set cs \<Longrightarrow> \<exists>vs. set vs \<subseteq> set cs \<and> rev (concat ws) = concat vs"
  by (rule exI [of _ "rev (map rev ws)"]) (auto simp: rev_concat rev_map)

lemma TrimSpace_empty_iff:
  "TrimSpace s = [] \<longleftrightarrow> (\<exists>ws. set ws \<subseteq> set space_encodings \<and> s = concat ws)"
proof
  let ?t = "trim_codes space_encodings s"
  assume "TrimSpace s = []"
  then have "trim_codes (map rev space_encodings) (rev ?t) = []" by (simp add: TrimSpace_def)
  with trim_codes_split [of "map rev space_encodings" "rev ?t"]
  obtain ws where "set ws \<subseteq> rev ` set space_encodings" "rev ?t = concat ws" by auto
  with rev_concat_codes [of ws space_encodings]
  obtain vs where vs: "set vs \<subseteq> set space_encodings" "?t = concat vs" by (metis rev_rev_ident)
  have "?t = []"
  proof (cases vs)
    case (Cons c rest)
    then have "leading space_encodings ?t = length c" "c \<noteq> []"
      using vs space_encodings_prefix_free by auto
    then show ?thesis using trim_codes_stops [of space_encodings s] by auto
  qed (use vs in simp)
  with trim_codes_split [of space_encodings s] show "\<exists>ws. set ws \<subseteq> set space_encodings \<and> s = concat ws"
    by auto
next
  assume "\<exists>ws. set ws \<subseteq> set space_encodings \<and> s = concat ws"
  then show "TrimSpace s = []" by (auto simp: TrimSpace_def trim_spaces trim_codes.simps [of _ "[]"])
qed

subsection \<open>Validation\<close>

lemma Validate_None_iff: "Validate c = None \<longleftrightarrow> valid_cmd c"
  by (auto simp: Validate_def valid_cmd_def Priority_Validate_def PriorityMax_def len_bytes_def
      split: option.splits)

lemma Validate_error:
  "Validate c = Some e \<Longrightarrow> errors_Is e ErrInvalidArgument \<or> errors_Is e ErrInvalidPriority"
  by (auto simp: Validate_def Priority_Validate_def split: if_splits)

text \<open>
  C32. Which commands pass validation: exactly those whose type does not consist of white space
  alone (in UTF-8, every rune of \<^verbatim>\<open>unicode.IsSpace\<close>), whose payload is empty or a JSON text by the
  grammar of RFC 8259 (strings not checked for UTF-8, nesting up to 10000), and whose priority is
  at most 10.
\<close>

theorem validate_exact:
  "Validate c = None \<longleftrightarrow>
     c_Type c \<notin> {concat ws | ws. set ws \<subseteq> set space_encodings} \<and>
     (case c_Payload c of None \<Rightarrow> True | Some p \<Rightarrow> p = [] \<or> p \<in> json_text) \<and> c_Priority c \<le> 10"
  by (auto simp: Validate_None_iff valid_cmd_def TrimSpace_empty_iff json_Valid_grammar split: option.splits)

lemma created_valid:
  "valid_cmd cmd \<Longrightarrow> created_as (new_task cmd at tid) t' \<Longrightarrow> valid_task t' \<and> Status t' = StatusPending"
  by (simp add: valid_cmd_def valid_task_def created_as_def new_task_def)

lemma valid_identity: "same_identity t t' \<Longrightarrow> valid_task t' \<longleftrightarrow> valid_task t"
  by (simp add: valid_task_def same_identity_def)

text \<open>The ways through \<^verbatim>\<open>Handle\<close>, before anything is known of the ports.\<close>

lemma Enqueue_Handle_paths:
  assumes "Enqueue_Handle u cmd w = (r, w')" "eu_clock u w = (start, w1)" "lib w1 = lib w"
  obtains (refused) e where "r = Inl e" "w' = w1"
    "\<not> valid_cmd cmd \<or> eu_knownTypes u \<noteq> {} \<and> c_Type cmd \<notin> eu_knownTypes u"
  | (lookup_failed) e where "c_IdempotencyKey cmd \<noteq> []"
      "repo_FindByIdempotencyKey (eu_repo u) (c_IdempotencyKey cmd) w1 = (Inl e, w')"
      "\<not> errors_Is e ErrNotFound" "r = Inl (errorf ''enqueue: idempotency check: '' e)"
  | (found) t where "c_IdempotencyKey cmd \<noteq> []"
      "repo_FindByIdempotencyKey (eu_repo u) (c_IdempotencyKey cmd) w1 = (Inr t, w')" "r = Inr (ID t)"
  | (register) w2 where "valid_cmd cmd" "eu_knownTypes u = {} \<or> c_Type cmd \<in> eu_knownTypes u"
      "w2 = w1 \<or> (\<exists>e. repo_FindByIdempotencyKey (eu_repo u) (c_IdempotencyKey cmd) w1 = (Inl e, w2))"
      "register u cmd start w2 = (r, w')"
proof (cases "Validate cmd = None \<and> (eu_knownTypes u = {} \<or> c_Type cmd \<in> eu_knownTypes u)")
  case False
  have "w' = w1 \<and> isl r"
    using assms False by (cases "Validate cmd") (auto simp: Enqueue_Handle_def)
  then show thesis using refused [of "projl r"] False by (auto simp: Validate_None_iff)
next
  case ok: True
  obtain rf w2 where f: "repo_FindByIdempotencyKey (eu_repo u) (c_IdempotencyKey cmd) w1 = (rf, w2)"
    by fastforce
  consider "c_IdempotencyKey cmd = []" | t where "c_IdempotencyKey cmd \<noteq> []" "rf = Inr t"
    | e where "c_IdempotencyKey cmd \<noteq> []" "rf = Inl e" "errors_Is e ErrNotFound"
    | e where "c_IdempotencyKey cmd \<noteq> []" "rf = Inl e" "\<not> errors_Is e ErrNotFound"
    by (cases rf) blast+
  then show thesis
  proof cases
    case 1
    then show thesis using assms ok by (intro register [of w1]) (auto simp: Enqueue_Handle_def Validate_None_iff)
  next
    case 2
    then show thesis using assms ok f by (intro found) (auto simp: Enqueue_Handle_def)
  next
    case 3
    then show thesis using assms ok f
      by (intro register [of w2]) (auto simp: Enqueue_Handle_def Validate_None_iff)
  next
    case 4
    then show thesis using assms ok f by (intro lookup_failed) (auto simp: Enqueue_Handle_def)
  qed
qed

lemma NewEnqueue_simps [simp]:
  "eu_repo (NewEnqueue r c i m kt) = r" "eu_clock (NewEnqueue r c i m kt) = c"
  "eu_ids (NewEnqueue r c i m kt) = i" "eu_metrics (NewEnqueue r c i m kt) = m"
  "eu_knownTypes (NewEnqueue r c i m kt) = set kt"
  by (simp_all add: NewEnqueue_def union_set_fold [symmetric])

context use_cases
begin

lemma register_step:
  assumes "inv w" "register (NewEnqueue repo now new_id metrics kt) cmd start w = (r, w')"
  shows "(\<exists>e. r = Inl (errorf ''enqueue: create: '' e) \<and> same_view inv key view w w') \<or>
     (\<exists>tid k t' at. (r = Inr tid \<or> isl r) \<and> key w tid = Some k \<and> view w k = None \<and>
        created_as (new_task cmd at tid) t' \<and> map (key w) (Dependencies t') = map (key w) (c_Dependencies cmd) \<and>
        inv w' \<and> key w' = key w \<and> view w' = (view w)(k \<mapsto> t'))"
proof -
  obtain at w1 where n: "now w = (at, w1)" by fastforce
  obtain tid w2 where i: "new_id w1 = (tid, w2)" by fastforce
  obtain rc w3 where c: "repo_Create repo (new_task cmd at tid) w2 = (rc, w3)" by fastforce
  have "same_view inv key view w w1" using assms(1) n by (rule now_same)
  moreover from this have "same_view inv key view w1 w2"
    using new_id_quiet [OF i] by (intro quiet_same_view) (simp_all add: same_view_def)
  ultimately have s2: "same_view inv key view w w2" by (rule same_view_trans)
  have st: "Status (new_task cmd at tid) = StatusPending" "ID (new_task cmd at tid) = tid"
    "Dependencies (new_task cmd at tid) = c_Dependencies cmd" "known_status (Status (new_task cmd at tid))"
    by (simp_all add: new_task_def known_status_def)
  have "inv w2" using s2 by (simp add: same_view_def)
  note law = create_law [OF c this st(4), unfolded st]
  have q: "same_view inv key view w3 w' \<and> r = (case rc of Inl e \<Rightarrow> Inl (errorf ''enqueue: create: '' e) | Inr _ \<Rightarrow> Inr tid)"
  proof (cases rc)
    case (Inl e)
    then show ?thesis using assms(2) n i c law by (auto simp: register_def NewEnqueue_def same_view_def)
  next
    case (Inr x)
    obtain at2 w4 where n2: "now w3 = (at2, w4)" by fastforce
    have r: "r = Inr tid" "w' = m_TaskEnqueued metrics (time_Sub at2 start) w4"
      using assms(2) n i c Inr n2 by (auto simp: register_def NewEnqueue_def new_task_def)
    have "same_view inv key view w3 w4" using law n2 by (intro now_same) simp_all
    moreover from this have "same_view inv key view w4 w'"
      unfolding r(2) using enqueued_quiet by (intro quiet_same_view) (simp_all add: same_view_def)
    ultimately show ?thesis using r(1) Inr by (auto dest: same_view_trans)
  qed
  from law show ?thesis
  proof (elim conjE disjE exE)
    assume "isl rc" "view w3 = view w2" "inv w3" "key w3 = key w2"
    with s2 q show ?thesis by (auto simp: same_view_def isl_def)
  next
    fix k t'
    assume k: "key w2 tid = Some k" "view w2 k = None" "created_as (new_task cmd at tid) t'"
      "map (key w2) (Dependencies t') = map (key w2) (c_Dependencies cmd)" "view w3 = (view w2)(k \<mapsto> t')"
      "inv w3" "key w3 = key w2"
    have "r = Inr tid \<or> isl r" using q by (cases rc) simp_all
    with k s2 q show ?thesis
      by (intro disjI2 exI [of _ tid] exI [of _ k] exI [of _ t'] exI [of _ at]) (simp add: same_view_def)
  qed
qed

lemma register_outcomes:
  assumes "inv w" "register (NewEnqueue repo now new_id metrics kt) cmd start w = (r, w')" "valid_cmd cmd"
  obtains (failed) "same_view inv key view w w'"
  | (stored) k t' where "inv w'" "key w' = key w" "view w k = None" "valid_task t'" "Status t' = StatusPending"
      "view w' = (view w)(k \<mapsto> t')"
  using register_step [OF assms(1,2)] created_valid [OF assms(3)] that by blast

text \<open>
  The outcomes of \<^verbatim>\<open>Handle\<close>: refused or failed with nothing stored, an existing task found, a new
  one stored, and a new one stored without the client being told.
\<close>

lemma Enqueue_cases:
  assumes "inv w" "Enqueue_Handle (NewEnqueue repo now new_id metrics kt) cmd w = (r, w')"
  obtains (refused) e where "r = Inl e" "same_view inv key view w w'"
  | (found) tid k t' where "r = Inr tid" "c_IdempotencyKey cmd \<noteq> []" "same_view inv key view w w'"
      "key w tid = Some k" "view w k = Some t'" "IdempotencyKey t' = c_IdempotencyKey cmd"
  | (created) tid k t' at where "r = Inr tid" "valid_cmd cmd"
      "kt = [] \<or> c_Type cmd \<in> set kt" "key w tid = Some k" "view w k = None"
      "created_as (new_task cmd at tid) t'" "map (key w) (Dependencies t') = map (key w) (c_Dependencies cmd)"
      "inv w'" "key w' = key w" "view w' = (view w)(k \<mapsto> t')"
  | (unconfirmed) tid k t' at where "isl r" "valid_cmd cmd"
      "kt = [] \<or> c_Type cmd \<in> set kt" "key w tid = Some k" "view w k = None"
      "created_as (new_task cmd at tid) t'" "map (key w) (Dependencies t') = map (key w) (c_Dependencies cmd)"
      "inv w'" "key w' = key w" "view w' = (view w)(k \<mapsto> t')"
proof -
  obtain start w1 where n: "now w = (start, w1)" by fastforce
  have s1: "same_view inv key view w w1" using assms(1) n by (rule now_same)
  then have inv1: "inv w1" by (simp add: same_view_def)
  have "eu_clock (NewEnqueue repo now new_id metrics kt) w = (start, w1)" "lib w1 = lib w"
    using n now_quiet [OF n] by simp_all
  with assms(2) show thesis
  proof (cases rule: Enqueue_Handle_paths)
    case (refused e)
    then show thesis using that(1) s1 by simp
  next
    case (lookup_failed e)
    then show thesis using that(1) same_view_trans [OF s1 find_same [OF inv1]] by simp
  next
    case (found t)
    then have f: "repo_FindByIdempotencyKey repo (c_IdempotencyKey cmd) w1 = (Inr t, w')" by simp
    from find [OF f inv1] s1 obtain k t' where "key w (ID t) = Some k" "view w k = Some t'"
      "IdempotencyKey t' = c_IdempotencyKey cmd" by (auto simp: same_view_def)
    with found(1,3) same_view_trans [OF s1 find_same [OF inv1 f]] show thesis by (intro that(2) [of "ID t" k t'])
  next
    case (register w2)
    have s2: "same_view inv key view w w2"
      using register(3) s1 same_view_trans [OF s1 find_same [OF inv1]] by auto
    then have "inv w2" by (simp add: same_view_def)
    from register_step [OF this register(4)] show thesis
    proof (rule disjE)
      assume "\<exists>e. r = Inl (errorf ''enqueue: create: '' e) \<and> same_view inv key view w2 w'"
      then show thesis using that(1) same_view_trans [OF s2] by blast
    next
      assume "\<exists>tid k t' at. (r = Inr tid \<or> isl r) \<and> key w2 tid = Some k \<and> view w2 k = None \<and>
        created_as (new_task cmd at tid) t' \<and> map (key w2) (Dependencies t') = map (key w2) (c_Dependencies cmd) \<and>
        inv w' \<and> key w' = key w2 \<and> view w' = (view w2)(k \<mapsto> t')"
      then obtain tid k t' at where k: "r = Inr tid \<or> isl r" "key w2 tid = Some k" "view w2 k = None" "created_as (new_task cmd at tid) t'"
        "map (key w2) (Dependencies t') = map (key w2) (c_Dependencies cmd)"
        "inv w'" "key w' = key w2" "view w' = (view w2)(k \<mapsto> t')"
        by blast
      from k(1) show thesis
      proof
        assume "r = Inr tid"
        then show thesis using k(2-) register(1,2) s2 by (intro that(3)) (auto simp: same_view_def)
      next
        assume "isl r"
        then show thesis using k(2-) register(1,2) s2 by (intro that(4)) (auto simp: same_view_def)
      qed
    qed
  qed
qed

lemma Enqueue_outcomes:
  assumes "inv w" "Enqueue_Handle (NewEnqueue repo now new_id metrics kt) cmd w = (r, w')"
  obtains (unchanged) "same_view inv key view w w'"
  | (stored) k t' where "inv w'" "key w' = key w" "view w k = None" "valid_task t'" "Status t' = StatusPending"
      "view w' = (view w)(k \<mapsto> t')"
  using assms
proof (cases rule: Enqueue_cases)
  case (created tid k t' at)
  then show thesis using that(2) created_valid by blast
next
  case (unconfirmed tid k t' at)
  then show thesis using that(2) created_valid by blast
qed (use that(1) in blast)+

lemma Enqueue_step:
  assumes "inv w" "Enqueue_Handle (NewEnqueue repo now new_id metrics kt) cmd w = (r, w')"
  shows "step_ok inv key view w w'"
  using assms
proof (cases rule: Enqueue_outcomes)
  case (stored k t')
  then show ?thesis by (auto simp: step_ok_def intro!: evolves_new)
qed (rule same_view_step)

text \<open>Two successful requests with one idempotency key name one task, and the second stores nothing.\<close>

lemma Enqueue_idempotent:
  assumes "inv w" "c_IdempotencyKey cmd \<noteq> []" "c_IdempotencyKey cmd2 = c_IdempotencyKey cmd"
    and "Enqueue_Handle (NewEnqueue repo now new_id metrics kt) cmd w = (Inr tid, w1)"
    and "same_view inv key view w1 w2"
    and "Enqueue_Handle (NewEnqueue repo now new_id metrics kt2) cmd2 w2 = (Inr tid2, w3)"
  shows "key w tid2 = key w tid \<and> view w3 = view w2"
proof -
  have "\<exists>k t. key w tid = Some k \<and> view w1 k = Some t \<and>
    IdempotencyKey t = c_IdempotencyKey cmd \<and> key w1 = key w \<and> inv w1"
    using assms(1,4)
  proof (cases rule: Enqueue_cases)
    case (found tid k t')
    then show ?thesis by (auto simp: same_view_def)
  next
    case (created tid k t' at)
    then show ?thesis by (auto simp: created_as_def new_task_def)
  qed simp_all
  then obtain k t where k: "key w tid = Some k" "view w1 k = Some t"
    "IdempotencyKey t = c_IdempotencyKey cmd" "key w1 = key w" "inv w1" by blast
  have v2: "view w2 = view w1" "key w2 = key w1" and "inv w2" using assms(5) by (simp_all add: same_view_def)
  from \<open>inv w2\<close> assms(6) show ?thesis
  proof (cases rule: Enqueue_cases)
    case (found tid' k2 t2')
    have "k2 = k"
      using key_unique [OF k(5)] found k assms(2,3) v2 by metis
    then show ?thesis using found k v2 by (auto simp: same_view_def)
  next
    case (created tid' k2 t2' at)
    have "k2 \<noteq> k" using created(5) k(2) v2 by auto
    then have "view w3 k = Some t" "view w3 k2 = Some t2'" using created(10) k(2) v2 by auto
    moreover have "IdempotencyKey t2' = IdempotencyKey t"
      using created(6) k(3) assms(3) by (simp add: created_as_def new_task_def)
    ultimately have False using key_unique [OF created(8)] \<open>k2 \<noteq> k\<close> k(3) assms(2) by metis
    then show ?thesis ..
  qed simp_all
qed

end

end
