(* ===== verification/Task_Use_Cases.thy ===== *)
theory Task_Use_Cases
  imports Use_Case_Contract
begin

text \<open>
  The requests on one task (\<^verbatim>\<open>src/internal/usecase/tasks.go\<close>). A callback of \<^verbatim>\<open>UpdateTask\<close> is a
  function of the reading of the clock in \<^verbatim>\<open>TransitionTo\<close> and of the loaded task; the task it
  leaves is what the use case returns.
\<close>

definition Get_Handle :: "'r TaskRepository \<Rightarrow> TaskID \<Rightarrow> (go_error, Task, 'r world) op" where
  "Get_Handle repo tid = repo_GetByID repo tid"

definition cancel_mutation :: mutation where
  "cancel_mutation now t = TransitionTo StatusCancelled now t"

definition Cancel_Handle :: "'r TaskRepository \<Rightarrow> TaskID \<Rightarrow> (go_error, Task, 'r world) op" where
  "Cancel_Handle repo tid = onError (errorf ''cancel: '') (repo_UpdateTask repo tid cancel_mutation)"

definition republish_mutation :: mutation where
  "republish_mutation now t =
     (case TransitionTo StatusPending now t of
        Inl err \<Rightarrow> Inl err
      | Inr t' \<Rightarrow> Inr (t'\<lparr>AttemptCount := 0, LastError := []\<rparr>))"

definition Republish_Handle :: "'r TaskRepository \<Rightarrow> TaskID \<Rightarrow> (go_error, Task, 'r world) op" where
  "Republish_Handle repo tid = onError (errorf ''republish: '') (repo_UpdateTask repo tid republish_mutation)"

definition List_Handle :: "'r TaskRepository \<Rightarrow> ListFilter \<Rightarrow> (go_error, Task list \<times> nat, 'r world) op" where
  "List_Handle repo f = repo_List repo f"

lemma cancel_Inr_iff:
  "cancel_mutation now t = Inr t' \<longleftrightarrow>
     Status t = StatusPending \<and> t' = t\<lparr>Status := StatusCancelled, UpdatedAt := now\<rparr>"
  by (auto simp: cancel_mutation_def TransitionTo_Inr_iff allowed_iff)

lemma republish_Inr_iff:
  "republish_mutation now t = Inr t' \<longleftrightarrow>
     (Status t = StatusFailed \<or> Status t = StatusRunning) \<and>
     t' = t\<lparr>Status := StatusPending, UpdatedAt := now, AttemptCount := 0, LastError := []\<rparr>"
  by (auto simp: republish_mutation_def TransitionTo_then_Inr_iff allowed_iff)

lemma halting_requests: "halting cancel_mutation" "halting republish_mutation"
  by (auto simp: halting_def lawful_def cancel_Inr_iff republish_Inr_iff allowed_iff)

lemma lawful_cancel [simp]: "lawful cancel_mutation" and lawful_republish [simp]: "lawful republish_mutation"
  using halting_requests by (simp_all add: halting_def)

context use_cases
begin

lemma Cancel_step:
  "inv w \<Longrightarrow> Cancel_Handle repo tid w = (r, w') \<Longrightarrow> step_ok inv key view w w'"
  using update_step [OF _ lawful_cancel] by (auto simp: Cancel_Handle_def onError_iff)

lemma Republish_step:
  "inv w \<Longrightarrow> Republish_Handle repo tid w = (r, w') \<Longrightarrow> step_ok inv key view w w'"
  using update_step [OF _ lawful_republish] by (auto simp: Republish_Handle_def onError_iff)

lemma Cancel_carries:
  "inv w \<Longrightarrow> Cancel_Handle repo tid w = (r, w') \<Longrightarrow> carries (view w) (view w')"
  using update_carries [OF _ _ halting_requests(1)] by (auto simp: Cancel_Handle_def onError_iff)

lemma Republish_carries:
  "inv w \<Longrightarrow> Republish_Handle repo tid w = (r, w') \<Longrightarrow> carries (view w) (view w')"
  using update_carries [OF _ _ halting_requests(2)] by (auto simp: Republish_Handle_def onError_iff)

lemma Get_step: "inv w \<Longrightarrow> Get_Handle repo tid w = (r, w') \<Longrightarrow> step_ok inv key view w w'"
  unfolding Get_Handle_def by (rule same_view_step [OF get_same])

lemma List_step: "inv w \<Longrightarrow> List_Handle repo f w = (r, w') \<Longrightarrow> step_ok inv key view w w'"
  using list_frame by (auto simp: List_Handle_def step_ok_def)

text \<open>A successful cancellation: the task was pending and is now stored as cancelled, nothing else changed.\<close>

lemma Cancel_success:
  assumes "inv w" "Cancel_Handle repo tid w = (Inr t', w')"
  shows "\<exists>k t at. key w tid = Some k \<and> view w k = Some t \<and> Status t = StatusPending \<and>
     t' = t\<lparr>Status := StatusCancelled, UpdatedAt := at\<rparr> \<and> view w' = (view w)(k \<mapsto> stored t t')"
proof -
  from assms(2) have "repo_UpdateTask repo tid cancel_mutation w = (Inr t', w')"
    by (simp add: Cancel_Handle_def)
  from update [OF this assms(1) lawful_cancel] show ?thesis by (fastforce simp: cancel_Inr_iff)
qed

lemma Republish_success:
  assumes "inv w" "Republish_Handle repo tid w = (Inr t', w')"
  shows "\<exists>k t at. key w tid = Some k \<and> view w k = Some t \<and>
     (Status t = StatusFailed \<or> Status t = StatusRunning) \<and>
     t' = t\<lparr>Status := StatusPending, UpdatedAt := at, AttemptCount := 0, LastError := []\<rparr> \<and>
     view w' = (view w)(k \<mapsto> stored t t')"
proof -
  from assms(2) have "repo_UpdateTask repo tid republish_mutation w = (Inr t', w')"
    by (simp add: Republish_Handle_def)
  from update [OF this assms(1) lawful_republish] show ?thesis by (fastforce simp: republish_Inr_iff)
qed

end

end
