(* ===== verification/Registry.thy ===== *)
theory Registry
  imports Ports
begin

text \<open>
  The registry of handlers (\<^verbatim>\<open>src/internal/usecase/registry.go\<close>). A handler is code of the
  application; it is a function of the call it is made in (its context, named by a number, so
  that two calls with one payload may differ) and of the payload. A panic is \<open>Inl\<close>.
\<close>

record execResult =
  er_result :: bytes
  er_err :: "go_error option"

type_synonym HandlerFunc = "nat \<Rightarrow> bytes \<Rightarrow> execResult"

record Registry =
  handlers :: "string \<rightharpoonup> HandlerFunc"

definition NewRegistry :: Registry where
  "NewRegistry = \<lparr>handlers = Map.empty\<rparr>"

definition Register :: "library \<Rightarrow> string \<Rightarrow> HandlerFunc \<Rightarrow> Registry \<Rightarrow> string + Registry" where
  "Register l ty h r =
     (if handlers r ty \<noteq> None
      then Inl (''registry: duplicate handler for type '' @ fmt_q l ty)
      else Inr (r\<lparr>handlers := (handlers r)(ty \<mapsto> h)\<rparr>))"

definition Registry_Get :: "library \<Rightarrow> string \<Rightarrow> Registry \<Rightarrow> go_error + HandlerFunc" where
  "Registry_Get l ty r =
     (case handlers r ty of
        None \<Rightarrow> Inl (Wrapped [] ErrInvalidArgument ('': unknown task type '' @ fmt_q l ty))
      | Some h \<Rightarrow> Inr h)"

text \<open>Registering a list of handlers in order, as a \<^verbatim>\<open>main\<close> does.\<close>

fun Register_all :: "library \<Rightarrow> (string \<times> HandlerFunc) list \<Rightarrow> Registry \<Rightarrow> string + Registry" where
  "Register_all l [] r = Inr r"
| "Register_all l ((ty, h) # hs) r =
     (case Register l ty h r of Inl p \<Rightarrow> Inl p | Inr r' \<Rightarrow> Register_all l hs r')"

text \<open>The registry of \<^verbatim>\<open>cmd/worker/main.go\<close>: one handler that does nothing.\<close>

definition noop_handler :: HandlerFunc where
  "noop_handler call payload = \<lparr>er_result = None, er_err = None\<rparr>"

definition worker_registry :: "library \<Rightarrow> string + Registry" where
  "worker_registry l = Register l ''noop'' noop_handler NewRegistry"

lemma Registry_Get_Inr_iff: "Registry_Get l ty r = Inr h \<longleftrightarrow> handlers r ty = Some h"
  by (auto simp: Registry_Get_def split: option.splits)

lemma Registry_Get_Inl: "Registry_Get l ty r = Inl e \<Longrightarrow> handlers r ty = None \<and> errors_Is e ErrInvalidArgument"
  by (auto simp: Registry_Get_def split: option.splits)

lemma Register_all_Inr:
  "Register_all l hs r = Inr r' \<Longrightarrow>
     distinct (map fst hs) \<and> (\<forall>ty \<in> fst ` set hs. handlers r ty = None) \<and>
     handlers r' = handlers r ++ map_of hs"
proof (induction hs arbitrary: r)
  case Nil
  then show ?case by simp
next
  case (Cons p hs)
  obtain ty h where p: "p = (ty, h)" by (cases p)
  from Cons.prems p have n: "handlers r ty = None"
    and "Register_all l hs (r\<lparr>handlers := (handlers r)(ty \<mapsto> h)\<rparr>) = Inr r'"
    by (auto simp: Register_def split: if_splits)
  from Cons.IH [OF this(2)] have IH: "distinct (map fst hs)"
    "\<forall>t \<in> fst ` set hs. ((handlers r)(ty \<mapsto> h)) t = None"
    "handlers r' = (handlers r)(ty \<mapsto> h) ++ map_of hs" by (simp_all add: fun_upd_def)
  then have "ty \<notin> fst ` set hs" by (metis fun_upd_same option.distinct(1))
  moreover from IH(2) this have "\<forall>t \<in> fst ` set hs. handlers r t = None"
    by (metis fun_upd_other)
  moreover from \<open>ty \<notin> fst ` set hs\<close> have "handlers r' = handlers r ++ map_of (p # hs)"
    using IH(3) p by (simp add: map_add_upd_left dom_map_of_conv_image_fst)
  ultimately show ?case using IH(1) n by (intro conjI) (simp_all add: p del: map_of.simps)
qed

text \<open>
  A registry filled from a list of handlers without a panic finds exactly the listed ones,
  and panics exactly when two of them carry one type.
\<close>

lemma Register_all_lookup:
  "(\<exists>r. Register_all l hs NewRegistry = Inr r \<and>
      (\<forall>ty h. Registry_Get l ty r = Inr h \<longleftrightarrow> map_of hs ty = Some h)) \<longleftrightarrow> distinct (map fst hs)"
proof
  assume "\<exists>r. Register_all l hs NewRegistry = Inr r \<and>
      (\<forall>ty h. Registry_Get l ty r = Inr h \<longleftrightarrow> map_of hs ty = Some h)"
  then show "distinct (map fst hs)" using Register_all_Inr by blast
next
  assume d: "distinct (map fst hs)"
  have all: "\<exists>r'. Register_all l hs r = Inr r'" if "\<forall>ty \<in> fst ` set hs. handlers r ty = None" for r
    using d that
  proof (induction hs arbitrary: r)
    case (Cons p hs)
    then show ?case by (cases p) (force simp: Register_def intro!: Cons.IH)
  qed simp
  obtain r where r: "Register_all l hs NewRegistry = Inr r"
    using all [of NewRegistry] by (auto simp: NewRegistry_def)
  from Register_all_Inr [OF r] have "handlers r = map_of hs" by (simp add: NewRegistry_def)
  with r show "\<exists>r. Register_all l hs NewRegistry = Inr r \<and>
      (\<forall>ty h. Registry_Get l ty r = Inr h \<longleftrightarrow> map_of hs ty = Some h)"
    by (auto simp: Registry_Get_Inr_iff)
qed

end
