(* ===== verification/Domain_Backoff.thy ===== *)
theory Domain_Backoff
  imports Prelude
begin

text \<open>
  Exponential backoff (\<^verbatim>\<open>src/internal/domain/backoff.go\<close>) on 64-bit durations: the shift
  wraps, the comparisons are signed.
\<close>

record Backoff =
  Base :: duration
  Max :: duration

definition DefaultBackoff :: Backoff where
  "DefaultBackoff = \<lparr>Base = time_Second, Max = 5 * time_Minute\<rparr>"

definition maxShift :: int where
  "maxShift = 62"

definition Delay :: "Backoff \<Rightarrow> go_int \<Rightarrow> duration" where
  "Delay b attempt0 =
     (let attempt = (if sint attempt0 < 0 then 0 else attempt0) in
      if sint attempt > maxShift \<or> sint (Base b) \<le> 0 then Max b
      else let d = push_bit (unat attempt) (Base b) in
        if sint d \<le> 0 \<or> sint d > sint (Max b) then Max b else d)"

text \<open>The number of doublings the code asks for.\<close>

definition doublings :: "go_int \<Rightarrow> nat" where
  "doublings attempt = nat (sint attempt)"

text \<open>The unbounded value the formula \<^verbatim>\<open>2^attempt * Base\<close> names.\<close>

definition exact_delay :: "Backoff \<Rightarrow> go_int \<Rightarrow> int" where
  "exact_delay b attempt = sint (Base b) * 2 ^ doublings attempt"

subsection \<open>Reading the 64-bit arithmetic\<close>

lemma sint_64_cases: "sint (w :: 64 word) = (if uint w < 2 ^ 63 then uint w else uint w - 2 ^ 64)"
proof -
  have "sint w = (uint w + 2 ^ 63) mod 2 ^ 64 - 2 ^ 63"
    by (simp add: sint_uint signed_take_bit_eq_take_bit_shift take_bit_eq_mod)
  moreover have bounds: "0 \<le> uint w" "uint w < 2 ^ 64"
    using uint_lt2p [of w] by simp_all
  moreover have "(uint w + 2 ^ 63) mod 2 ^ 64 = uint w - 2 ^ 63" if "2 ^ 63 \<le> uint w"
  proof -
    have "(uint w + 2 ^ 63) mod 2 ^ 64 = (uint w - 2 ^ 63 + 2 ^ 64) mod 2 ^ 64"
      by (simp add: add.commute)
    also have "\<dots> = (uint w - 2 ^ 63) mod 2 ^ 64" by (rule mod_add_self2)
    also have "\<dots> = uint w - 2 ^ 63" using that bounds by (intro mod_pos_pos_trivial) auto
    finally show ?thesis .
  qed
  ultimately show ?thesis by (auto simp: mod_pos_pos_trivial)
qed

lemma uint_eq_sint: "0 \<le> sint (w :: 64 word) \<Longrightarrow> uint w = sint w"
  using uint_lt2p [of w] by (simp add: sint_64_cases split: if_splits)

lemma unat_eq_nat_sint: "0 \<le> sint (w :: 64 word) \<Longrightarrow> unat w = nat (sint w)"
  by (simp add: unat_eq_nat_uint uint_eq_sint)

lemma uint_push_bit_64: "uint (push_bit n (w :: 64 word)) = (uint w * 2 ^ n) mod 2 ^ 64"
  by (rule trans [OF unsigned_push_bit_eq]) (simp add: take_bit_eq_mod push_bit_eq_mult)

lemma Delay_unfold:
  "Delay b attempt =
     (if doublings attempt > 62 \<or> sint (Base b) \<le> 0 then Max b
      else let d = push_bit (doublings attempt) (Base b) in
        if sint d \<le> 0 \<or> sint d > sint (Max b) then Max b else d)"
proof (cases "sint attempt < 0")
  case True
  then show ?thesis by (simp add: Delay_def doublings_def maxShift_def Let_def)
next
  case False
  then have "unat attempt = doublings attempt" "sint attempt > 62 \<longleftrightarrow> doublings attempt > 62"
    by (auto simp: unat_eq_nat_sint doublings_def)
  with False show ?thesis by (simp add: Delay_def maxShift_def Let_def)
qed

subsection \<open>Properties\<close>

text \<open>
  The delay never exceeds the configured maximum, for every base, every maximum and every
  attempt number, negative and overflowing ones included.
\<close>

lemma Delay_le_Max: "sint (Delay b attempt) \<le> sint (Max b)"
  by (auto simp: Delay_unfold Let_def)

lemma Delay_no_wrap:
  assumes "0 < sint (Base b)" and "exact_delay b attempt < 2 ^ 64"
  shows "sint (Delay b attempt) = min (exact_delay b attempt) (sint (Max b))"
proof -
  let ?n = "doublings attempt"
  let ?d = "push_bit ?n (Base b)"
  have max: "sint (Max b) < 2 ^ 63" using sint_range_64 by blast
  have base: "uint (Base b) = sint (Base b)" using assms(1) by (simp add: uint_eq_sint)
  have pos: "0 < exact_delay b attempt" using assms(1) by (simp add: exact_delay_def)
  have d: "uint ?d = exact_delay b attempt"
    using pos assms(2) by (simp add: uint_push_bit_64 base exact_delay_def del: push_bit_eq_mult)
  show ?thesis
  proof (cases "?n > 62")
    case True
    then have "(2 :: int) ^ 63 \<le> 2 ^ ?n" by (intro power_increasing) auto
    also have "\<dots> \<le> exact_delay b attempt"
      using assms(1) by (simp add: exact_delay_def mult_le_cancel_right1)
    finally show ?thesis using True max by (simp add: Delay_unfold)
  next
    case False
    show ?thesis
    proof (cases "exact_delay b attempt < 2 ^ 63")
      case True
      with False d pos assms(1) show ?thesis
        by (auto simp: Delay_unfold Let_def sint_64_cases [of ?d])
    next
      case neg: False
      with d assms(2) have "sint ?d \<le> 0" by (simp add: sint_64_cases [of ?d])
      with False neg max show ?thesis by (simp add: Delay_unfold Let_def)
    qed
  qed
qed

lemma time_constants [simp]:
  "sint time_Second = 10 ^ 9" "sint (5 * time_Minute) = 3 * 10 ^ 11"
  by (simp_all add: time_Second_def time_Minute_def)

text \<open>
  With a base of one second the wrapped product can never look like a small delay: from 35
  doublings on it is a multiple of \<open>2 ^ 44\<close> nanoseconds, far above the maximum, or not positive.
\<close>

lemma DefaultBackoff_wraps_high:
  assumes "35 \<le> n"
  shows "sint (push_bit n time_Second) \<le> 0 \<or> sint (push_bit n time_Second) > 3 * 10 ^ 11"
proof -
  let ?d = "push_bit n time_Second"
  have "(2 :: int) ^ 44 dvd 2 ^ 9 * 2 ^ n"
    using assms by (simp only: power_add [symmetric]) (rule le_imp_power_dvd, simp)
  then have "(2 :: int) ^ 44 dvd 1953125 * (2 ^ 9 * 2 ^ n)"
    by (rule dvd_mult)
  then have "(2 :: int) ^ 44 dvd (10 ^ 9 * 2 ^ n) mod 2 ^ 64"
    by (intro dvd_mod) (simp_all add: le_imp_power_dvd)
  then have "(2 :: int) ^ 44 dvd uint ?d"
    by (simp only: uint_push_bit_64) (simp add: time_Second_def)
  moreover have "(2 :: int) ^ 44 dvd 2 ^ 64" by (simp add: le_imp_power_dvd)
  ultimately have "2 ^ 44 dvd sint ?d" by (simp only: sint_64_cases) (simp add: dvd_diff)
  then have "0 < sint ?d \<Longrightarrow> 2 ^ 44 \<le> sint ?d" by (rule zdvd_imp_le)
  then show ?thesis by force
qed

text \<open>
  C30. The delay of the default backoff is exactly \<open>min (1s * 2 ^ attempt) 5min\<close> for every
  attempt number of the 64-bit \<^verbatim>\<open>int\<close> type, a negative one counting as 0: no wrap-around of the
  shift is ever visible in the result.
\<close>

theorem DefaultBackoff_Delay:
  "sint (Delay DefaultBackoff attempt) = min (10 ^ 9 * 2 ^ doublings attempt) (3 * 10 ^ 11)"
proof (cases "doublings attempt \<le> 34")
  case True
  have "exact_delay DefaultBackoff attempt = 10 ^ 9 * 2 ^ doublings attempt"
    by (simp add: exact_delay_def DefaultBackoff_def)
  moreover have "(10 :: int) ^ 9 * 2 ^ doublings attempt \<le> 10 ^ 9 * 2 ^ 34"
    using True by (intro mult_left_mono power_increasing) auto
  ultimately show ?thesis
    by (subst Delay_no_wrap) (simp_all add: DefaultBackoff_def)
next
  case False
  then have "(2 :: int) ^ 35 \<le> 2 ^ doublings attempt" by (intro power_increasing) auto
  moreover have "Delay DefaultBackoff attempt = 5 * time_Minute"
    using False DefaultBackoff_wraps_high [of "doublings attempt"]
    by (auto simp: Delay_unfold DefaultBackoff_def Let_def simp del: push_bit_eq_mult)
  ultimately show ?thesis by simp
qed

text \<open>
  With another base the shift does wrap into a small positive delay: for a base of
  \<open>2 ^ 40 + 1\<close> nanoseconds (about 18 minutes) and a maximum of twice that, attempt 23 still
  gives the maximum, while attempt 24 gives \<open>2 ^ 24\<close> nanoseconds (17 ms), below the base itself.
\<close>

lemma Delay_wraps_small:
  "let b = \<lparr>Base = 2 ^ 40 + 1, Max = 2 ^ 41\<rparr> in
     Delay b 23 = Max b \<and> Delay b 24 = 2 ^ 24 \<and> sint (Delay b 24) < sint (Base b)"
  by (simp add: Delay_def maxShift_def Let_def)

end
