(* ===== verification/Execute.thy ===== *)
theory Execute
  imports Use_Case_Contract Registry Domain_Backoff
begin

text \<open>
  Processing a delivery (\<^verbatim>\<open>src/internal/usecase/execute.go\<close>). The goroutine of the handler, the
  heartbeat ticker and the context meet in one \<^verbatim>\<open>select\<close>: \<open>process\<close> is a function of the sequence
  of its outcomes and of the number that names the handler's call. It has returned when a
  result or the end of the context comes; it is still waiting when the outcomes are used up
  before that. The calls whose error the code drops keep only their effect.
\<close>

definition heartbeatInterval :: duration where
  "heartbeatInterval = 5 * time_Second"

definition taskStreamConst :: string where
  "taskStreamConst = ''rsufz:tasks''"

definition workerGroupName :: string where
  "workerGroupName = ''rsufz:workers''"

definition dlqStream :: string where
  "dlqStream = ''rsufz:dlq''"

record 'r ExecuteUseCase =
  xu_repo :: "'r TaskRepository"
  xu_broker :: "'r Broker"
  xu_registry :: Registry
  xu_clock :: "'r Clock"
  xu_metrics :: "'r Metrics"
  xu_workerID :: string

definition NewExecute :: "'r TaskRepository \<Rightarrow> 'r Broker \<Rightarrow> Registry \<Rightarrow> 'r Clock \<Rightarrow> 'r Metrics \<Rightarrow> string \<Rightarrow> 'r ExecuteUseCase" where
  "NewExecute repo broker registry clk metrics workerID =
     \<lparr>xu_repo = repo, xu_broker = broker, xu_registry = registry, xu_clock = clk,
      xu_metrics = metrics, xu_workerID = workerID\<rparr>"

text \<open>\<^verbatim>\<open>_ = u.broker.Ack(...)\<close> and \<^verbatim>\<open>_ = u.broker.Publish(...)\<close>.\<close>

definition ack :: "'r ExecuteUseCase \<Rightarrow> string \<Rightarrow> 'r world \<Rightarrow> 'r world" where
  "ack u msgID w = snd (broker_Ack (xu_broker u) taskStreamConst workerGroupName msgID w)"

definition to_dlq :: "'r ExecuteUseCase \<Rightarrow> TaskID \<Rightarrow> 'r world \<Rightarrow> 'r world" where
  "to_dlq u tid w = snd (broker_Publish (xu_broker u) dlqStream tid w)"

subsection \<open>Recording the outcome\<close>

definition completed_mutation :: "bytes \<Rightarrow> string \<Rightarrow> mutation" where
  "completed_mutation result workerID now t =
     (case TransitionTo StatusCompleted now t of
        Inl err \<Rightarrow> Inl err
      | Inr t' \<Rightarrow> Inr (t'\<lparr>Result := result, WorkerID := workerID\<rparr>))"

definition markCompleted :: "'r ExecuteUseCase \<Rightarrow> Task \<Rightarrow> bytes \<Rightarrow> string \<Rightarrow> 'r world \<Rightarrow> 'r world" where
  "markCompleted u task result msgID w =
     (case repo_UpdateTask (xu_repo u) (ID task) (completed_mutation result (xu_workerID u)) w of
        (Inl err, w1) \<Rightarrow> w1
      | (Inr _, w1) \<Rightarrow> ack u msgID w1)"

definition retry_mutation :: "go_int \<Rightarrow> string \<Rightarrow> gotime \<Rightarrow> mutation" where
  "retry_mutation attempts err_text nextAt now t =
     (case TransitionTo StatusPending now t of
        Inl err \<Rightarrow> Inl err
      | Inr t' \<Rightarrow> Inr (t'\<lparr>AttemptCount := attempts, LastError := err_text, ScheduledAt := nextAt,
                        WorkerID := []\<rparr>))"

definition markRetry :: "'r ExecuteUseCase \<Rightarrow> Task \<Rightarrow> go_error \<Rightarrow> string \<Rightarrow> 'r world \<Rightarrow> 'r world" where
  "markRetry u task taskErr msgID w =
     (let (now, w1) = xu_clock u w;
          nextAt = time_Add now (Delay DefaultBackoff (AttemptCount task)) in
      case repo_UpdateTask (xu_repo u) (ID task)
             (retry_mutation (AttemptCount task) (Error taskErr) nextAt) w1 of
        (Inl err, w2) \<Rightarrow> w2
      | (Inr _, w2) \<Rightarrow> ack u msgID w2)"

definition failed_mutation :: "string \<Rightarrow> mutation" where
  "failed_mutation errMsg now t =
     (case TransitionTo StatusFailed now t of
        Inl err \<Rightarrow> Inl err
      | Inr t' \<Rightarrow> Inr (t'\<lparr>LastError := errMsg, WorkerID := []\<rparr>))"

definition markFailed :: "'r ExecuteUseCase \<Rightarrow> Task \<Rightarrow> string \<Rightarrow> string \<Rightarrow> 'r world \<Rightarrow> 'r world" where
  "markFailed u task errMsg msgID w =
     (case repo_UpdateTask (xu_repo u) (ID task) (failed_mutation errMsg) w of
        (Inl err, w1) \<Rightarrow> w1
      | (Inr _, w1) \<Rightarrow> ack u msgID (to_dlq u (ID task) w1))"

subsection \<open>process\<close>

datatype exec_event = HbTicker | HandlerReturned | TaskCtxDone go_error

fun await :: "'r ExecuteUseCase \<Rightarrow> Task \<Rightarrow> execResult \<Rightarrow> exec_event list \<Rightarrow> 'r world \<Rightarrow> execResult option \<times> 'r world" where
  "await u task outcome [] w = (None, w)"
| "await u task outcome (HbTicker # es) w =
     await u task outcome es (snd (repo_Heartbeat (xu_repo u) (ID task) (xu_workerID u) w))"
| "await u task outcome (HandlerReturned # es) w = (Some outcome, w)"
| "await u task outcome (TaskCtxDone err # es) w = (Some \<lparr>er_result = None, er_err = Some err\<rparr>, w)"

text \<open>What \<^verbatim>\<open>process\<close> does with the result, after the label \<^verbatim>\<open>done\<close>.\<close>

definition settle :: "'r ExecuteUseCase \<Rightarrow> Task \<Rightarrow> gotime \<Rightarrow> string \<Rightarrow> execResult \<Rightarrow> 'r world \<Rightarrow> 'r world" where
  "settle u task0 start msgID res w =
     (case er_err res of
        Some err \<Rightarrow>
          (let task = IncrementAttempt task0 in
           if CanRetry task \<and> \<not> errors_Is err ContextCanceled
           then markRetry u task err msgID (m_TaskRetried (xu_metrics u) w)
           else markFailed u task (Error err) msgID (m_TaskFailed (xu_metrics u) w))
      | None \<Rightarrow>
          (let (now, w1) = xu_clock u w in
           markCompleted u task0 (er_result res) msgID
             (m_TaskCompleted (xu_metrics u) (time_Sub now start) w1)))"

definition process :: "'r ExecuteUseCase \<Rightarrow> Delivery \<Rightarrow> nat \<Rightarrow> exec_event list \<Rightarrow> 'r world \<Rightarrow> bool \<times> 'r world" where
  "process u d call es w0 =
     (let (start, w1) = xu_clock u w0 in
      case repo_GetByID (xu_repo u) (d_TaskID d) w1 of
        (Inl err, w2) \<Rightarrow> (True, w2)
      | (Inr task, w2) \<Rightarrow>
          if Status task = StatusCompleted \<or> Status task = StatusCancelled
          then (True, ack u (d_ID d) w2)
          else (case Registry_Get (lib w2) (Type task) (xu_registry u) of
              Inl err \<Rightarrow>
                (True, markFailed u task (''no handler for type '' @ fmt_q (lib w2) (Type task)) (d_ID d) w2)
            | Inr handler \<Rightarrow>
                (case await u task (handler call (Payload task)) es w2 of
                   (None, w3) \<Rightarrow> (False, w3)
                 | (Some res, w3) \<Rightarrow> (True, settle u task start (d_ID d) res w3))))"

text \<open>
  \<^verbatim>\<open>Run\<close> after a successful \<^verbatim>\<open>Subscribe\<close>: the outcomes of its \<^verbatim>\<open>select\<close> are a delivery, with the
  outcomes inside \<^verbatim>\<open>process\<close>, the closed channel, or the end of the context.
\<close>

datatype run_event = Delivered Delivery nat "exec_event list" | ChannelClosed | RunCtxDone

fun Execute_Run :: "'r ExecuteUseCase \<Rightarrow> run_event list \<Rightarrow> 'r world \<Rightarrow> bool \<times> 'r world" where
  "Execute_Run u [] w = (False, w)"
| "Execute_Run u (RunCtxDone # es) w = (True, w)"
| "Execute_Run u (ChannelClosed # es) w = (True, w)"
| "Execute_Run u (Delivered d call xs # es) w =
     (case process u d call xs w of
        (False, w1) \<Rightarrow> (False, w1)
      | (True, w1) \<Rightarrow> Execute_Run u es w1)"

subsection \<open>The mutations\<close>

lemma completed_Inr_iff:
  "completed_mutation res wid now t = Inr t' \<longleftrightarrow> Status t = StatusRunning \<and>
     t' = t\<lparr>Status := StatusCompleted, UpdatedAt := now, Result := res, WorkerID := wid\<rparr>"
  by (auto simp: completed_mutation_def TransitionTo_then_Inr_iff allowed_iff)

lemma retry_Inr_iff:
  "retry_mutation n e at now t = Inr t' \<longleftrightarrow> (Status t = StatusRunning \<or> Status t = StatusFailed) \<and>
     t' = t\<lparr>Status := StatusPending, UpdatedAt := now, AttemptCount := n, LastError := e,
            ScheduledAt := at, WorkerID := []\<rparr>"
  by (auto simp: retry_mutation_def TransitionTo_then_Inr_iff allowed_iff)

lemma failed_Inr_iff:
  "failed_mutation e now t = Inr t' \<longleftrightarrow> Status t = StatusRunning \<and>
     t' = t\<lparr>Status := StatusFailed, UpdatedAt := now, LastError := e, WorkerID := []\<rparr>"
  by (auto simp: failed_mutation_def TransitionTo_then_Inr_iff allowed_iff)

lemma halting_outcomes [simp]:
  "halting (completed_mutation res wid)" "halting (retry_mutation n e at)" "halting (failed_mutation msg)"
  by (auto simp: halting_def lawful_def completed_Inr_iff retry_Inr_iff failed_Inr_iff allowed_iff)

lemma await_returns_iff:
  "(\<exists>res w'. await u task o1 es w = (Some res, w')) \<longleftrightarrow> (\<exists>e \<in> set es. e \<noteq> HbTicker)"
proof (induction es arbitrary: w)
  case (Cons e es)
  then show ?case by (cases e) auto
qed simp

context use_cases
begin

lemma ack_quiet_view: "inv w \<Longrightarrow> same_view inv key view w (ack (NewExecute repo broker reg now metrics wid) m w)"
  using ack_quiet [OF prod.collapse [symmetric]]
  by (intro quiet_same_view) (simp_all add: ack_def NewExecute_def)

lemma dlq_quiet_view: "inv w \<Longrightarrow> same_view inv key view w (to_dlq (NewExecute repo broker reg now metrics wid) i w)"
  using publish_quiet [OF prod.collapse [symmetric]]
  by (intro quiet_same_view) (simp_all add: to_dlq_def NewExecute_def)

text \<open>
  The outcome of \<^verbatim>\<open>UpdateTask\<close> followed by calls that leave the table alone: either nothing is
  stored, or exactly the mutated task is.
\<close>

lemma update_then_quiet:
  assumes "inv w" "halting m" "key w tid = Some k" "repo_UpdateTask repo tid m w = (r, w1)"
    and quiet: "inv w1 \<Longrightarrow> same_view inv key view w1 (f w1)"
    and w': "w' = (case r of Inl _ \<Rightarrow> w1 | Inr _ \<Rightarrow> f w1)"
  shows "acts_on inv key view {k} w w' \<and>
     (view w' = view w \<or>
      (\<exists>t at t'. view w k = Some t \<and> m at t = Inr t' \<and> view w' = (view w)(k \<mapsto> stored t t')))"
proof -
  have a: "acts_on inv key view {k} w w1" by (rule update_acts_on [OF assms(1-4)])
  then have "inv w1" by (simp add: acts_on_def)
  with quiet have f: "same_view inv key view w1 (f w1)" by blast
  have "acts_on inv key view {k} w w'" "view w' = view w1"
    using a acts_then_same_view [OF a f] f w' by (auto simp: same_view_def split: sum.splits)
  moreover have "lawful m" using assms(2) by (simp add: halting_def)
  ultimately show ?thesis using update_law [OF assms(4,1)] assms(3) by auto
qed

lemma markCompleted_ok:
  assumes "inv w" "key w (ID task) = Some k"
    "w' = markCompleted (NewExecute repo broker reg now metrics wid) task res m w"
  shows "acts_on inv key view {k} w w' \<and>
     (view w' = view w \<or>
      (\<exists>t at t'. view w k = Some t \<and> completed_mutation res wid at t = Inr t' \<and>
         view w' = (view w)(k \<mapsto> stored t t')))"
proof -
  let ?u = "NewExecute repo broker reg now metrics wid"
  obtain r w1 where u: "repo_UpdateTask repo (ID task) (completed_mutation res wid) w = (r, w1)" by fastforce
  show ?thesis
    by (rule update_then_quiet [OF assms(1) halting_outcomes(1) assms(2) u, of "ack ?u m"])
      (use u in \<open>auto simp: assms(3) markCompleted_def NewExecute_def ack_quiet_view [unfolded NewExecute_def] split: sum.splits\<close>)
qed

lemma markFailed_ok:
  assumes "inv w" "key w (ID task) = Some k"
    "w' = markFailed (NewExecute repo broker reg now metrics wid) task msg m w"
  shows "acts_on inv key view {k} w w' \<and>
     (view w' = view w \<or>
      (\<exists>t at t'. view w k = Some t \<and> failed_mutation msg at t = Inr t' \<and>
         view w' = (view w)(k \<mapsto> stored t t')))"
proof -
  let ?u = "NewExecute repo broker reg now metrics wid"
  obtain r w1 where u: "repo_UpdateTask repo (ID task) (failed_mutation msg) w = (r, w1)" by fastforce
  have q: "same_view inv key view v (ack ?u m (to_dlq ?u (ID task) v))" if "inv v" for v
    using same_view_trans [OF dlq_quiet_view [OF that] ack_quiet_view] dlq_quiet_view [OF that]
    by (simp add: same_view_def)
  show ?thesis
    by (rule update_then_quiet [OF assms(1) halting_outcomes(3) assms(2) u, of "\<lambda>w. ack ?u m (to_dlq ?u (ID task) w)"])
      (use u in \<open>auto simp: assms(3) markFailed_def NewExecute_def q [unfolded NewExecute_def] split: sum.splits\<close>)
qed

lemma markRetry_ok:
  assumes "inv w" "key w (ID task) = Some k"
    "w' = markRetry (NewExecute repo broker reg now metrics wid) task e m w"
  shows "acts_on inv key view {k} w w' \<and>
     (view w' = view w \<or>
      (\<exists>t at t'. view w k = Some t \<and>
         retry_mutation (AttemptCount task) (Error e)
           (time_Add (fst (now w)) (Delay DefaultBackoff (AttemptCount task))) at t = Inr t' \<and>
         view w' = (view w)(k \<mapsto> stored t t')))"
proof -
  let ?u = "NewExecute repo broker reg now metrics wid"
  let ?m = "retry_mutation (AttemptCount task) (Error e)
           (time_Add (fst (now w)) (Delay DefaultBackoff (AttemptCount task)))"
  obtain at w0 where n: "now w = (at, w0)" by fastforce
  have s0: "same_view inv key view w w0" using assms(1) n by (rule now_same)
  then have i0: "inv w0" "key w0 (ID task) = Some k" "view w0 = view w"
    using assms(2) by (simp_all add: same_view_def)
  obtain r w1 where u: "repo_UpdateTask repo (ID task) ?m w0 = (r, w1)" by fastforce
  have "w' = (case r of Inl _ \<Rightarrow> w1 | Inr _ \<Rightarrow> ack ?u m w1)"
    using u n by (auto simp: assms(3) markRetry_def NewExecute_def Let_def split: sum.splits)
  from update_then_quiet [OF i0(1) halting_outcomes(2) i0(2) u, of "ack ?u m" w', OF ack_quiet_view this]
  show ?thesis using rests_then_acts [OF same_view_rests_on [OF s0]] i0(3) by auto
qed

lemma await_ok:
  assumes "inv w" "key w (ID task) = Some k"
    "await (NewExecute repo broker reg now metrics wid) task outcome es w = (r, w')"
  shows "rests_on inv key view {k} w w'"
  using assms
proof (induction es arbitrary: w)
  case Nil
  then show ?case by (simp add: rests_on_def)
next
  case (Cons e es)
  show ?case
  proof (cases e)
    case HbTicker
    obtain rh w1 where h: "repo_Heartbeat repo (ID task) wid w = (rh, w1)" by fastforce
    have a: "rests_on inv key view {k} w w1" using Cons.prems(1,2) h by (rule heartbeat_rests_on)
    have "await (NewExecute repo broker reg now metrics wid) task outcome es w1 = (r, w')"
      using Cons.prems(3) HbTicker h by (simp add: NewExecute_def)
    from Cons.IH [OF _ _ this] a Cons.prems(2) have "rests_on inv key view {k} w1 w'"
      by (simp add: rests_on_def)
    with a show ?thesis by (rule rests_on_trans)
  qed (use Cons.prems in \<open>auto simp: rests_on_def\<close>)
qed

lemma settle_ok:
  assumes "inv w" "key w (ID task) = Some k"
    "w' = settle (NewExecute repo broker reg now metrics wid) task start m res w"
  shows "acts_on inv key view {k} w w'"
proof (cases "er_err res")
  case None
  obtain at w1 where n: "now w = (at, w1)" by fastforce
  let ?w2 = "m_TaskCompleted metrics (time_Sub at start) w1"
  have s1: "same_view inv key view w w1" using assms(1) n by (rule now_same)
  moreover from this have "same_view inv key view w1 ?w2"
    using completed_quiet by (intro quiet_same_view) (simp_all add: same_view_def)
  ultimately have s2: "same_view inv key view w ?w2" by (rule same_view_trans)
  have "w' = markCompleted (NewExecute repo broker reg now metrics wid) task (er_result res) m ?w2"
    using None n by (simp add: assms(3) settle_def NewExecute_def)
  from markCompleted_ok [OF _ _ this, of k] s2 assms(2)
  show ?thesis using rests_then_acts [OF same_view_rests_on [OF s2]] by (auto simp: same_view_def)
next
  case (Some e)
  let ?t = "IncrementAttempt task" and ?u = "NewExecute repo broker reg now metrics wid"
  have k: "ID ?t = ID task" by (simp add: IncrementAttempt_def)
  have s1: "same_view inv key view w (m_TaskRetried metrics w)" "same_view inv key view w (m_TaskFailed metrics w)"
    using retried_quiet failed_quiet assms(1) by (auto intro: quiet_same_view)
  have r: "acts_on inv key view {k} (m_TaskRetried metrics w) (markRetry ?u ?t e m (m_TaskRetried metrics w))"
    using markRetry_ok [of _ ?t k] s1(1) assms(2) k by (simp add: same_view_def)
  have f: "acts_on inv key view {k} (m_TaskFailed metrics w) (markFailed ?u ?t (Error e) m (m_TaskFailed metrics w))"
    using markFailed_ok [of _ ?t k] s1(2) assms(2) k by (simp add: same_view_def)
  show ?thesis
    using Some rests_then_acts [OF same_view_rests_on [OF s1(1)] r] rests_then_acts [OF same_view_rests_on [OF s1(2)] f]
    by (simp add: assms(3) settle_def NewExecute_def Let_def)
qed

text \<open>Whatever happens while a delivery is processed, only its task changes, and along the transition table.\<close>

lemma process_ok:
  assumes "inv w" "process (NewExecute repo broker reg now metrics wid) d call es w = (b, w')"
  shows "acts_on inv key view {k. key w (d_TaskID d) = Some k} w w'"
proof -
  let ?u = "NewExecute repo broker reg now metrics wid" and ?K = "{k. key w (d_TaskID d) = Some k}"
  obtain start w1 where n: "now w = (start, w1)" by fastforce
  obtain rg w2 where g: "repo_GetByID repo (d_TaskID d) w1 = (rg, w2)" by fastforce
  have s1: "same_view inv key view w w1" using assms(1) n by (rule now_same)
  then have i1: "inv w1" by (simp add: same_view_def)
  have s2: "same_view inv key view w w2" using s1 get_same [OF i1 g] by (rule same_view_trans)
  then have i2: "inv w2" by (simp add: same_view_def)
  note go = rests_then_acts [OF same_view_rests_on [OF s2]]
  show ?thesis
  proof (cases rg)
    case (Inl e)
    then show ?thesis
      using assms(2) n g same_view_acts_on [OF s2] by (auto simp: process_def NewExecute_def)
  next
    case (Inr task)
    from get [OF g [unfolded Inr] i1] s1 s2 obtain k where k: "key w (d_TaskID d) = Some k"
      "key w2 (ID task) = Some k" by (auto simp: same_view_def)
    then have K: "?K = {k}" by auto
    have body: "acts_on inv key view {k} w2 w'"
      if "\<not> (Status task = StatusCompleted \<or> Status task = StatusCancelled)"
    proof (cases "Registry_Get (lib w2) (Type task) reg")
      case (Inl e)
      with that assms(2) n g Inr have "w' = markFailed ?u task
          (''no handler for type '' @ fmt_q (lib w2) (Type task)) (d_ID d) w2"
        by (auto simp: process_def NewExecute_def)
      from markFailed_ok [OF i2 k(2) this] show ?thesis by simp
    next
      case reg: (Inr h)
      obtain ra w3 where a: "await ?u task (h call (Payload task)) es w2 = (ra, w3)" by fastforce
      have a3: "rests_on inv key view {k} w2 w3" by (rule await_ok [OF i2 k(2) a])
      then have "inv w3" "key w3 (ID task) = Some k" using k(2) by (simp_all add: rests_on_def)
      then have "acts_on inv key view {k} w3 (settle ?u task start (d_ID d) res w3)" for res
        using settle_ok by blast
      then show ?thesis
        using that assms(2) n g Inr reg a rests_on_acts_on [OF a3] rests_then_acts [OF a3]
        by (cases ra) (auto simp: process_def NewExecute_def)
    qed
    show ?thesis
      unfolding K using assms(2) n g Inr body go same_view_acts_on [OF ack_quiet_view [OF i2]]
      by (cases "Status task = StatusCompleted \<or> Status task = StatusCancelled")
        (auto simp: process_def NewExecute_def)
  qed
qed

end

end
