(* ===== verification/Schedule.thy ===== *)
theory Schedule
  imports Use_Case_Contract "HOL-Library.Sublist"
begin

text \<open>
  The scheduler (\<^verbatim>\<open>src/internal/usecase/schedule.go\<close>) and the monitor of stuck tasks
  (\<^verbatim>\<open>src/internal/usecase/heartbeat.go\<close>). A loop over a ticker is a function of the sequence of
  outcomes of its \<^verbatim>\<open>select\<close>: it consumes them until the context is done, and is still
  running when they are used up before that.
\<close>

datatype loop_event = CtxDone | TickerC

definition defaultPollInterval :: duration where
  "defaultPollInterval = 100 * time_Millisecond"

definition defaultBatchSize :: go_int where
  "defaultBatchSize = 50"

definition taskStream :: string where
  "taskStream = ''rsufz:tasks''"

record 'r ScheduleUseCase =
  su_repo :: "'r TaskRepository"
  su_broker :: "'r Broker"
  su_metrics :: "'r Metrics"
  su_pollInterval :: duration
  su_batchSize :: go_int

definition WithPollInterval :: "duration \<Rightarrow> 'r ScheduleUseCase \<Rightarrow> 'r ScheduleUseCase" where
  "WithPollInterval d s = s\<lparr>su_pollInterval := d\<rparr>"

definition WithBatchSize :: "go_int \<Rightarrow> 'r ScheduleUseCase \<Rightarrow> 'r ScheduleUseCase" where
  "WithBatchSize n s = s\<lparr>su_batchSize := n\<rparr>"

definition NewSchedule :: "'r TaskRepository \<Rightarrow> 'r Broker \<Rightarrow> 'r Metrics \<Rightarrow>
    ('r ScheduleUseCase \<Rightarrow> 'r ScheduleUseCase) list \<Rightarrow> 'r ScheduleUseCase" where
  "NewSchedule repo broker metrics opts =
     fold (\<lambda>opt s. opt s) opts
       \<lparr>su_repo = repo, su_broker = broker, su_metrics = metrics,
        su_pollInterval = defaultPollInterval, su_batchSize = defaultBatchSize\<rparr>"

text \<open>The loop of \<^verbatim>\<open>tick\<close> over the picked tasks: a task that cannot be published is passed over.\<close>

fun dispatch_loop :: "'r Broker \<Rightarrow> 'r Metrics \<Rightarrow> Task list \<Rightarrow> 'r world \<Rightarrow> 'r world" where
  "dispatch_loop broker metrics [] w = w"
| "dispatch_loop broker metrics (t # ts) w =
     (case broker_Publish broker taskStream (ID t) w of
        (Inl err, w1) \<Rightarrow> dispatch_loop broker metrics ts w1
      | (Inr _, w1) \<Rightarrow> dispatch_loop broker metrics ts (m_TaskDispatched metrics w1))"

definition tick :: "'r ScheduleUseCase \<Rightarrow> (go_error, unit, 'r world) op" where
  "tick s =
     andThen (repo_PickAndMarkRunning (su_repo s) (su_batchSize s)) (\<lambda>ts w.
       (Inr (), dispatch_loop (su_broker s) (su_metrics s) ts w))"

text \<open>
  \<^verbatim>\<open>Loop\<close>: \<^verbatim>\<open>time.NewTicker\<close> panics on an interval that is not positive; otherwise the result says
  whether the loop has returned.
\<close>

definition time_NewTicker :: "duration \<Rightarrow> bool" where
  "time_NewTicker d \<longleftrightarrow> 0 < sint d"

datatype loop_end = TickerPanic | LoopReturned | LoopRunning

fun Loop_select :: "'r ScheduleUseCase \<Rightarrow> loop_event list \<Rightarrow> 'r world \<Rightarrow> loop_end \<times> 'r world" where
  "Loop_select s [] w = (LoopRunning, w)"
| "Loop_select s (CtxDone # es) w = (LoopReturned, w)"
| "Loop_select s (TickerC # es) w = Loop_select s es (snd (tick s w))"

definition Loop :: "'r ScheduleUseCase \<Rightarrow> loop_event list \<Rightarrow> 'r world \<Rightarrow> loop_end \<times> 'r world" where
  "Loop s es w = (if time_NewTicker (su_pollInterval s) then Loop_select s es w else (TickerPanic, w))"

subsection \<open>The monitor\<close>

record 'r HeartbeatUseCase =
  hb_repo :: "'r TaskRepository"
  hb_timeout :: duration
  hb_interval :: duration

definition NewHeartbeat :: "'r TaskRepository \<Rightarrow> duration \<Rightarrow> duration \<Rightarrow> 'r HeartbeatUseCase" where
  "NewHeartbeat repo timeout interval = \<lparr>hb_repo = repo, hb_timeout = timeout, hb_interval = interval\<rparr>"

definition heartbeat_check :: "'r HeartbeatUseCase \<Rightarrow> 'r world \<Rightarrow> 'r world" where
  "heartbeat_check h w = snd (repo_ResetStuckRunning (hb_repo h) (hb_timeout h) w)"

fun Heartbeat_select :: "'r HeartbeatUseCase \<Rightarrow> loop_event list \<Rightarrow> 'r world \<Rightarrow> loop_end \<times> 'r world" where
  "Heartbeat_select h [] w = (LoopRunning, w)"
| "Heartbeat_select h (CtxDone # es) w = (LoopReturned, w)"
| "Heartbeat_select h (TickerC # es) w = Heartbeat_select h es (heartbeat_check h w)"

definition Heartbeat_Run :: "'r HeartbeatUseCase \<Rightarrow> loop_event list \<Rightarrow> 'r world \<Rightarrow> loop_end \<times> 'r world" where
  "Heartbeat_Run h es w = (if time_NewTicker (hb_interval h) then Heartbeat_select h es w else (TickerPanic, w))"

subsection \<open>Laws\<close>

text \<open>Options are applied in order, the last one of a kind wins.\<close>

lemma NewSchedule_options:
  "su_batchSize (NewSchedule r b m []) = 50" "su_repo (NewSchedule r b m []) = r"
  "NewSchedule r b m (opts @ [opt]) = opt (NewSchedule r b m opts)"
  by (simp_all add: NewSchedule_def defaultBatchSize_def)

text \<open>
  The options of \<^verbatim>\<open>NewSchedule\<close> in the order \<^verbatim>\<open>RunScheduler\<close> gives them: the configured poll
  interval and batch size replace the defaults, the ports stay as given.
\<close>

lemma NewSchedule_configured:
  "NewSchedule r b m [WithPollInterval d, WithBatchSize n] =
     \<lparr>su_repo = r, su_broker = b, su_metrics = m, su_pollInterval = d, su_batchSize = n\<rparr>"
  by (simp add: NewSchedule_def WithPollInterval_def WithBatchSize_def)

text \<open>A broker that keeps, in Redis, the sequence of what was published.\<close>

locale broker_log =
  fixes broker :: "'r Broker"
    and log :: "'r \<Rightarrow> (string \<times> TaskID) list"
  assumes publish_logged: "broker_Publish broker s i w = (Inr x, w') \<Longrightarrow> log (rdb w') = log (rdb w) @ [(s, i)]"
    and publish_failed: "broker_Publish broker s i w = (Inl e, w') \<Longrightarrow> log (rdb w') = log (rdb w)"
    and ack_log: "broker_Ack broker s g m w = (r, w') \<Longrightarrow> log (rdb w') = log (rdb w)"
begin

lemma dispatch_loop_log:
  assumes m: "\<And>w. rdb (m_TaskDispatched metrics w) = rdb w" "\<And>w. count (m_TaskDispatched metrics w) = Suc (count w)"
    and p: "\<And>s i w r w'. broker_Publish broker s i w = (r, w') \<Longrightarrow> count w' = count w"
  shows "\<exists>us. subseq us (map ID ts) \<and>
     log (rdb (dispatch_loop broker metrics ts w)) = log (rdb w) @ map (Pair taskStream) us \<and>
     count (dispatch_loop broker metrics ts w) = count w + length us \<and>
     ((\<forall>s i w. \<not> isl (fst (broker_Publish broker s i w))) \<longrightarrow> us = map ID ts)"
proof (induction ts arbitrary: w)
  case Nil
  then show ?case by simp
next
  case (Cons t ts)
  obtain r w1 where pub: "broker_Publish broker taskStream (ID t) w = (r, w1)" by fastforce
  show ?case
  proof (cases r)
    case (Inl e)
    with pub have "isl (fst (broker_Publish broker taskStream (ID t) w))" by simp
    then have fails: "\<not> (\<forall>s i w. \<not> isl (fst (broker_Publish broker s i w)))" by blast
    from Cons.IH [of w1] obtain us where "subseq us (map ID ts)"
      "log (rdb (dispatch_loop broker metrics ts w1)) = log (rdb w1) @ map (Pair taskStream) us"
      "count (dispatch_loop broker metrics ts w1) = count w1 + length us" by blast
    then show ?thesis
      using pub Inl publish_failed [of taskStream "ID t" w e w1] p [OF pub] fails
      by (intro exI [of _ us]) auto
  next
    case (Inr x)
    from Cons.IH [of "m_TaskDispatched metrics w1"] m obtain us where us: "subseq us (map ID ts)"
      "log (rdb (dispatch_loop broker metrics ts (m_TaskDispatched metrics w1))) =
        log (rdb w1) @ map (Pair taskStream) us"
      "count (dispatch_loop broker metrics ts (m_TaskDispatched metrics w1)) = Suc (count w1) + length us"
      "(\<forall>s i w. \<not> isl (fst (broker_Publish broker s i w))) \<longrightarrow> us = map ID ts" by metis
    then show ?thesis
      using pub Inr publish_logged [of taskStream "ID t" w x w1] p [OF pub]
      by (intro exI [of _ "ID t # us"]) auto
  qed
qed

end

context use_cases
begin

lemma dispatch_quiet: "inv w \<Longrightarrow> same_view inv key view w (dispatch_loop broker metrics ts w)"
proof (induction ts arbitrary: w)
  case Nil
  then show ?case by (simp add: same_view_def)
next
  case (Cons t ts)
  obtain r w1 where p: "broker_Publish broker taskStream (ID t) w = (r, w1)" by fastforce
  have s1: "same_view inv key view w w1" using publish_quiet [OF p] Cons.prems by (intro quiet_same_view)
  then have "inv w1" by (simp add: same_view_def)
  moreover from this have s2: "same_view inv key view w1 (m_TaskDispatched metrics w1)"
    using dispatched_quiet by (intro quiet_same_view)
  ultimately show ?case
    using Cons.IH [of w1] Cons.IH [of "m_TaskDispatched metrics w1"] s1 p
    by (cases r) (auto simp: same_view_def)
qed

lemma tick_step:
  assumes "inv w" "su_repo s = repo" "su_broker s = broker" "su_metrics s = metrics" "tick s w = (r, w')"
  shows "step_ok inv key view w w'"
proof -
  obtain rp w1 where p: "repo_PickAndMarkRunning repo (su_batchSize s) w = (rp, w1)" by fastforce
  from pick_evolves [OF p assms(1)] have s1: "step_ok inv key view w w1" by (simp add: step_ok_def)
  then have "same_view inv key view w1 (dispatch_loop broker metrics ts w1)" for ts
    by (intro dispatch_quiet) (simp add: step_ok_def)
  with s1 assms(2-5) p show ?thesis
    by (cases rp) (auto simp: tick_def op_defs intro: step_then_same_view)
qed

lemma check_step: "inv w \<Longrightarrow> hb_repo h = repo \<Longrightarrow> step_ok inv key view w (heartbeat_check h w)"
  using reset_evolves [OF prod.collapse [symmetric]] by (simp add: heartbeat_check_def step_ok_def)

end

text \<open>A loop over a ticker with a positive interval ends exactly when its context is done at some point.\<close>

lemma Loop_select_returns_iff: "fst (Loop_select s es w) = LoopReturned \<longleftrightarrow> CtxDone \<in> set es"
proof (induction es arbitrary: w)
  case (Cons e es)
  then show ?case by (cases e) simp_all
qed simp

lemma Heartbeat_select_returns_iff: "fst (Heartbeat_select h es w) = LoopReturned \<longleftrightarrow> CtxDone \<in> set es"
proof (induction es arbitrary: w)
  case (Cons e es)
  then show ?case by (cases e) simp_all
qed simp

lemma Loop_returns_iff:
  "fst (Loop s es w) = LoopReturned \<longleftrightarrow> 0 < sint (su_pollInterval s) \<and> CtxDone \<in> set es"
  by (simp add: Loop_def time_NewTicker_def Loop_select_returns_iff)

lemma Heartbeat_Run_returns_iff:
  "fst (Heartbeat_Run h es w) = LoopReturned \<longleftrightarrow> 0 < sint (hb_interval h) \<and> CtxDone \<in> set es"
  by (simp add: Heartbeat_Run_def time_NewTicker_def Heartbeat_select_returns_iff)

end
