(* ===== verification/Go_Strconv.thy ===== *)
theory Go_Strconv
  imports Go_Errors
begin

text \<open>
  \<^verbatim>\<open>strconv.Atoi\<close> of the standard library, which reads the numbers of the configuration: an optional
  sign, then decimal digits, in the range of a 64-bit \<^verbatim>\<open>int\<close>. The text of its errors is not used.
\<close>

definition digit_value :: "char \<Rightarrow> nat option" where
  "digit_value c = (if 48 \<le> (of_char c :: nat) \<and> (of_char c :: nat) \<le> 57 then Some (of_char c - 48) else None)"

fun read_digits :: "nat \<Rightarrow> string \<Rightarrow> nat option" where
  "read_digits n [] = Some n"
| "read_digits n (c # cs) = (case digit_value c of None \<Rightarrow> None | Some d \<Rightarrow> read_digits (10 * n + d) cs)"

definition ErrSyntax :: go_error where
  "ErrSyntax = Opaque ''invalid syntax''"

definition ErrRange :: go_error where
  "ErrRange = Opaque ''value out of range''"

definition Atoi :: "string \<Rightarrow> go_error + go_int" where
  "Atoi s =
     (let neg = (s \<noteq> [] \<and> hd s = CHR ''-'');
          ds = (if s \<noteq> [] \<and> (hd s = CHR ''-'' \<or> hd s = CHR ''+'') then tl s else s) in
      if ds = [] then Inl ErrSyntax
      else case read_digits 0 ds of
          None \<Rightarrow> Inl ErrSyntax
        | Some n \<Rightarrow>
            if neg then (if n \<le> 2 ^ 63 then Inr (- of_nat n) else Inl ErrRange)
            else (if n < 2 ^ 63 then Inr (of_nat n) else Inl ErrRange))"

subsection \<open>Reading back what \<open>itoa\<close> writes\<close>

lemma digit_value_char: "d < 10 \<Longrightarrow> digit_value (char_of (48 + d)) = Some d"
  by (simp add: digit_value_def)

lemma read_digits_append:
  "read_digits n (xs @ ys) = (case read_digits n xs of None \<Rightarrow> None | Some m \<Rightarrow> read_digits m ys)"
  by (induction n xs rule: read_digits.induct) (auto split: option.splits)

lemma read_digits_itoa: "read_digits 0 (itoa n) = Some n"
proof (induction n rule: itoa.induct)
  case (1 n)
  show ?case
  proof (cases "n < 10")
    case True
    then show ?thesis by (simp add: itoa.simps [of n] digit_value_char)
  next
    case False
    with 1 show ?thesis by (simp add: itoa.simps [of n] read_digits_append digit_value_char)
  qed
qed

lemma itoa_first_digit: "itoa n \<noteq> [] \<and> 48 \<le> (of_char (hd (itoa n)) :: nat)"
proof (induction n rule: itoa.induct)
  case (1 n)
  then show ?case by (cases "n < 10") (simp_all add: itoa.simps [of n])
qed

lemma Atoi_itoa:
  assumes "n < 2 ^ 63"
  shows "Atoi (itoa n) = Inr (of_nat n)"
proof -
  have "hd (itoa n) \<noteq> CHR ''-''" "hd (itoa n) \<noteq> CHR ''+''" using itoa_first_digit [of n] by auto
  with itoa_first_digit [of n] read_digits_itoa [of n] assms show ?thesis by (simp add: Atoi_def Let_def)
qed

end
