(* ===== verification/Redis_Broker.thy ===== *)
theory Redis_Broker
  imports Schedule Platform
begin

text \<open>
  The Redis implementation of \<^verbatim>\<open>usecase.Broker\<close> (\<^verbatim>\<open>src/internal/adapter/broker/redis/broker.go\<close>).
  The client library is a parameter: a record of the five commands the code sends, each a
  function on the state of the server. The goroutine of \<^verbatim>\<open>Subscribe\<close> works on the channel and on
  the sequence of its looks at the context (\<^verbatim>\<open>ctx.Err()\<close> or the \<^verbatim>\<open>ctx.Done()\<close> branch of a
  \<^verbatim>\<open>select\<close>; a \<^verbatim>\<open>select\<close> in which both branches are ready may take either, so one that sends
  although the context is done is a look that finds it alive); \<open>readLoop\<close> has fuel, one unit for
  an iteration, and every iteration looks at the context at least once, so fuel beyond the look
  that finds it done is enough.
\<close>

datatype redis_value = RString string | ROther

record XMessage =
  x_ID :: string
  x_Values :: "string \<rightharpoonup> redis_value"

record XAutoClaimArgs =
  ac_Stream :: string
  ac_Group :: string
  ac_Consumer :: string
  ac_MinIdle :: duration
  ac_Start :: string
  ac_Count :: go_int

record XReadGroupArgs =
  rg_Group :: string
  rg_Consumer :: string
  rg_Streams :: "string list"
  rg_Count :: go_int
  rg_Block :: duration

record 'r redis_client =
  XAdd :: "string \<Rightarrow> (string \<rightharpoonup> redis_value) \<Rightarrow> 'r \<Rightarrow> (go_error + string) \<times> 'r"
  XGroupCreateMkStream :: "string \<Rightarrow> string \<Rightarrow> string \<Rightarrow> 'r \<Rightarrow> (go_error + unit) \<times> 'r"
  XAutoClaim :: "XAutoClaimArgs \<Rightarrow> 'r \<Rightarrow> (go_error + XMessage list) \<times> 'r"
  XReadGroup :: "XReadGroupArgs \<Rightarrow> 'r \<Rightarrow> (go_error + (string \<times> XMessage list) list) \<times> 'r"
  XAck :: "string \<Rightarrow> string \<Rightarrow> string \<Rightarrow> 'r \<Rightarrow> (go_error + unit) \<times> 'r"

definition on_redis :: "('r \<Rightarrow> (go_error + 'a) \<times> 'r) \<Rightarrow> (go_error, 'a, 'r world) op" where
  "on_redis f w = (case f (rdb w) of (r, s) \<Rightarrow> (r, w\<lparr>rdb := s\<rparr>))"

subsection \<open>Publish and Ack\<close>

definition publish_values :: "TaskID \<Rightarrow> string \<rightharpoonup> redis_value" where
  "publish_values taskID = [''task_id'' \<mapsto> RString taskID]"

definition Publish :: "'r redis_client \<Rightarrow> string \<Rightarrow> TaskID \<Rightarrow> (go_error, unit, 'r world) op" where
  "Publish c stream taskID =
     andThen (onError (errorf (''broker: publish to '' @ stream @ '': ''))
       (on_redis (XAdd c stream (publish_values taskID)))) (\<lambda>_. ret ())"

definition Ack :: "'r redis_client \<Rightarrow> string \<Rightarrow> string \<Rightarrow> string \<Rightarrow> (go_error, unit, 'r world) op" where
  "Ack c stream grp msgID =
     onError (errorf (''broker: ack '' @ msgID @ '': '')) (on_redis (XAck c stream grp msgID))"

definition redis_Broker :: "'r redis_client \<Rightarrow> 'r Broker" where
  "redis_Broker c = \<lparr>broker_Publish = Publish c, broker_Ack = Ack c\<rparr>"

subsection \<open>Subscribe\<close>

definition parseDelivery :: "XMessage \<Rightarrow> Delivery option" where
  "parseDelivery msg =
     (case x_Values msg ''task_id'' of
        None \<Rightarrow> None
      | Some raw \<Rightarrow> (case raw of
            ROther \<Rightarrow> None
          | RString tid \<Rightarrow> if tid = [] then None else Some \<lparr>d_ID = x_ID msg, d_TaskID = tid\<rparr>))"

record consumer =
  ch :: "Delivery list"
  ctx_done :: "nat \<Rightarrow> bool"

definition look :: "consumer \<Rightarrow> bool \<times> consumer" where
  "look c = (ctx_done c 0, c\<lparr>ctx_done := shift (ctx_done c)\<rparr>)"

text \<open>Sending the messages that parse; the result says whether the context was done at a send.\<close>

fun deliver :: "XMessage list \<Rightarrow> consumer \<Rightarrow> bool \<times> consumer" where
  "deliver [] c = (False, c)"
| "deliver (msg # msgs) c =
     (case parseDelivery msg of
        None \<Rightarrow> deliver msgs c
      | Some d \<Rightarrow>
          (case look c of
             (True, c1) \<Rightarrow> (True, c1)
           | (False, c1) \<Rightarrow> deliver msgs (c1\<lparr>ch := ch c1 @ [d]\<rparr>)))"

definition reclaimPending :: "'r redis_client \<Rightarrow> string \<Rightarrow> string \<Rightarrow> string \<Rightarrow> 'r \<times> consumer \<Rightarrow> 'r \<times> consumer" where
  "reclaimPending rc stream grp consumer = (\<lambda>(s, c).
     case XAutoClaim rc \<lparr>ac_Stream = stream, ac_Group = grp, ac_Consumer = consumer,
            ac_MinIdle = 30 * time_Second, ac_Start = ''0-0'', ac_Count = 100\<rparr> s of
       (Inl err, s1) \<Rightarrow> (s1, c)
     | (Inr msgs, s1) \<Rightarrow> (s1, snd (deliver msgs c)))"

fun readLoop :: "nat \<Rightarrow> 'r redis_client \<Rightarrow> string \<Rightarrow> string \<Rightarrow> string \<Rightarrow> 'r \<times> consumer \<Rightarrow> bool \<times> 'r \<times> consumer" where
  "readLoop 0 rc stream grp consumer (s, c) = (False, s, c)"
| "readLoop (Suc n) rc stream grp consumer (s, c) =
     (case look c of
        (True, c1) \<Rightarrow> (True, s, c1)
      | (False, c1) \<Rightarrow>
          (case XReadGroup rc \<lparr>rg_Group = grp, rg_Consumer = consumer, rg_Streams = [stream, ''>''],
                  rg_Count = 10, rg_Block = 2 * time_Second\<rparr> s of
             (Inl err, s1) \<Rightarrow>
               (case look c1 of
                  (True, c2) \<Rightarrow> (True, s1, c2)
                | (False, c2) \<Rightarrow>
                    (case look c2 of
                       (True, c3) \<Rightarrow> (True, s1, c3)
                     | (False, c3) \<Rightarrow> readLoop n rc stream grp consumer (s1, c3)))
           | (Inr streams, s1) \<Rightarrow>
               (case deliver (concat (map snd streams)) c1 of
                  (True, c2) \<Rightarrow> (True, s1, c2)
                | (False, c2) \<Rightarrow> readLoop n rc stream grp consumer (s1, c2))))"

definition busy_group :: string where
  "busy_group = ''BUSYGROUP Consumer Group name already exists''"

text \<open>The goroutine \<^verbatim>\<open>Subscribe\<close> starts, on an empty channel, run for at most \<open>n\<close> iterations.\<close>

definition consume :: "nat \<Rightarrow> 'r redis_client \<Rightarrow> string \<Rightarrow> string \<Rightarrow> string \<Rightarrow> (nat \<Rightarrow> bool) \<Rightarrow> 'r \<Rightarrow> bool \<times> 'r \<times> consumer" where
  "consume n rc stream grp consumer looks s =
     readLoop n rc stream grp consumer
       (reclaimPending rc stream grp consumer (s, \<lparr>ch = [], ctx_done = looks\<rparr>))"

definition Subscribe :: "'r redis_client \<Rightarrow> string \<Rightarrow> string \<Rightarrow> (go_error, unit, 'r world) op" where
  "Subscribe rc stream grp w =
     (case on_redis (XGroupCreateMkStream rc stream grp ''$'') w of
        (Inr _, w1) \<Rightarrow> (Inr (), w1)
      | (Inl err, w1) \<Rightarrow>
          if Error err \<noteq> busy_group
          then (Inl (errorf (''broker: create group '' @ stream @ ''/'' @ grp @ '': '') err), w1)
          else (Inr (), w1))"

text \<open>A client with a history of the \<^verbatim>\<open>XADD\<close>s that succeeded, and the identifiers published, in order.\<close>

type_synonym history = "(string \<times> (string \<rightharpoonup> redis_value)) list"

definition recording :: "'r redis_client \<Rightarrow> ('r \<times> history) redis_client" where
  "recording rc =
     \<lparr>XAdd = (\<lambda>s v (st, h). case XAdd rc s v st of
          (Inl e, st') \<Rightarrow> (Inl e, st', h)
        | (Inr mid, st') \<Rightarrow> (Inr mid, st', h @ [(s, v)])),
      XGroupCreateMkStream = (\<lambda>s g i (st, h). case XGroupCreateMkStream rc s g i st of (r, st') \<Rightarrow> (r, st', h)),
      XAutoClaim = (\<lambda>a (st, h). case XAutoClaim rc a st of (r, st') \<Rightarrow> (r, st', h)),
      XReadGroup = (\<lambda>a (st, h). case XReadGroup rc a st of (r, st') \<Rightarrow> (r, st', h)),
      XAck = (\<lambda>s g m (st, h). case XAck rc s g m st of (r, st') \<Rightarrow> (r, st', h))\<rparr>"

definition published :: "history \<Rightarrow> (string \<times> TaskID) list" where
  "published = List.map_filter (\<lambda>(s, v). case v ''task_id'' of
      Some (RString tid) \<Rightarrow> Some (s, tid) | _ \<Rightarrow> None)"

text \<open>A client with a history of the messages it returned to the consumer, reclaimed or read.\<close>

definition traced :: "'r redis_client \<Rightarrow> ('r \<times> XMessage list) redis_client" where
  "traced rc =
     \<lparr>XAdd = (\<lambda>s v (st, h). case XAdd rc s v st of (r, st') \<Rightarrow> (r, st', h)),
      XGroupCreateMkStream = (\<lambda>s g i (st, h). case XGroupCreateMkStream rc s g i st of (r, st') \<Rightarrow> (r, st', h)),
      XAutoClaim = (\<lambda>a (st, h). case XAutoClaim rc a st of
          (Inl e, st') \<Rightarrow> (Inl e, st', h)
        | (Inr msgs, st') \<Rightarrow> (Inr msgs, st', h @ msgs)),
      XReadGroup = (\<lambda>a (st, h). case XReadGroup rc a st of
          (Inl e, st') \<Rightarrow> (Inl e, st', h)
        | (Inr streams, st') \<Rightarrow> (Inr streams, st', h @ concat (map snd streams))),
      XAck = (\<lambda>s g m (st, h). case XAck rc s g m st of (r, st') \<Rightarrow> (r, st', h))\<rparr>"

text \<open>The deliveries of a sequence of messages: those that parse, in order.\<close>

definition deliveries :: "XMessage list \<Rightarrow> Delivery list" where
  "deliveries = List.map_filter parseDelivery"

subsection \<open>Laws\<close>

lemma parseDelivery_Some_iff:
  "parseDelivery msg = Some d \<longleftrightarrow>
     (\<exists>tid. tid \<noteq> [] \<and> x_Values msg ''task_id'' = Some (RString tid) \<and>
        d = \<lparr>d_ID = x_ID msg, d_TaskID = tid\<rparr>)"
  by (auto simp: parseDelivery_def split: option.splits redis_value.splits)

lemma deliveries_simps [simp]:
  "deliveries [] = []"
  "deliveries (m # ms) = (case parseDelivery m of None \<Rightarrow> deliveries ms | Some d \<Rightarrow> d # deliveries ms)"
  "deliveries (ms @ ms') = deliveries ms @ deliveries ms'"
  by (simp_all add: deliveries_def map_filter_simps map_filter_def split: option.splits)

text \<open>The deliveries sent are a prefix of those of the batch, all of them unless the context was done at a send.\<close>

lemma deliver_prefix:
  "deliver msgs c = (stop, c') \<Longrightarrow>
     \<exists>ds. ch c' = ch c @ ds \<and> prefix ds (deliveries msgs) \<and> (\<not> stop \<longrightarrow> ds = deliveries msgs)"
proof (induction msgs arbitrary: c)
  case Nil
  then show ?case by simp
next
  case (Cons msg msgs)
  show ?case
  proof (cases "parseDelivery msg")
    case None
    with Cons.IH [of c] Cons.prems show ?thesis by simp
  next
    case (Some d)
    show ?thesis
    proof (cases "ctx_done c 0")
      case True
      with Cons.prems Some show ?thesis by (auto simp: look_def)
    next
      case False
      with Cons.prems Some have "deliver msgs (c\<lparr>ctx_done := shift (ctx_done c), ch := ch c @ [d]\<rparr>) = (stop, c')"
        by (simp add: look_def)
      from Cons.IH [OF this] Some show ?thesis by auto
    qed
  qed
qed

text \<open>A delivery that was stopped has just found the context done.\<close>

lemma deliver_stopped:
  "deliver msgs c = (True, c') \<Longrightarrow> \<exists>k. ctx_done c k \<and> ctx_done c' = (\<lambda>i. ctx_done c (i + Suc k))"
proof (induction msgs arbitrary: c)
  case Nil
  then show ?case by simp
next
  case (Cons msg msgs)
  show ?case
  proof (cases "parseDelivery msg")
    case None
    with Cons.IH [of c] Cons.prems show ?thesis by simp
  next
    case (Some d)
    show ?thesis
    proof (cases "ctx_done c 0")
      case True
      with Cons.prems Some show ?thesis by (intro exI [of _ 0]) (auto simp: look_def shift_def)
    next
      case False
      with Cons.prems Some have "deliver msgs (c\<lparr>ctx_done := shift (ctx_done c), ch := ch c @ [d]\<rparr>) = (True, c')"
        by (simp add: look_def)
      from Cons.IH [OF this] obtain k where "ctx_done c (Suc k)" "ctx_done c' = (\<lambda>i. ctx_done c (Suc (i + Suc k)))"
        by (auto simp: shift_def)
      then show ?thesis by (intro exI [of _ "Suc k"]) simp
    qed
  qed
qed

text \<open>Some number of looks is used up, and all but the last one found the context alive.\<close>

lemma deliver_looks:
  "deliver msgs c = (stop, c') \<Longrightarrow>
     \<exists>k. ctx_done c' = (\<lambda>i. ctx_done c (i + k)) \<and> (\<forall>i < k. ctx_done c i \<longrightarrow> stop)"
proof (induction msgs arbitrary: c)
  case Nil
  then show ?case by (intro exI [of _ 0]) simp
next
  case (Cons msg msgs)
  show ?case
  proof (cases "parseDelivery msg")
    case None
    with Cons.IH [of c] Cons.prems show ?thesis by simp
  next
    case (Some d)
    show ?thesis
    proof (cases "ctx_done c 0")
      case True
      with Cons.prems Some show ?thesis by (intro exI [of _ 1]) (auto simp: look_def shift_def)
    next
      case False
      with Cons.prems Some have "deliver msgs (c\<lparr>ctx_done := shift (ctx_done c), ch := ch c @ [d]\<rparr>) = (stop, c')"
        by (simp add: look_def)
      from Cons.IH [OF this] obtain k where k: "ctx_done c' = (\<lambda>i. ctx_done c (Suc (i + k)))"
        "\<forall>i < k. ctx_done c (Suc i) \<longrightarrow> stop" by (auto simp: shift_def)
      show ?thesis using k False by (intro exI [of _ "Suc k"]) (auto simp: less_Suc_eq_0_disj)
    qed
  qed
qed

text \<open>
  An iteration of \<^verbatim>\<open>readLoop\<close> returns, or goes on after looks at the context that all found it alive.
\<close>

lemma readLoop_iteration:
  "fst (readLoop (Suc n) rc stream grp consumer (s, c)) \<or>
   (\<exists>k s1 c1. readLoop (Suc n) rc stream grp consumer (s, c) = readLoop n rc stream grp consumer (s1, c1) \<and>
      ctx_done c1 = (\<lambda>i. ctx_done c (i + Suc k)) \<and> (\<forall>i \<le> k. \<not> ctx_done c i))"
proof -
  let ?c1 = "c\<lparr>ctx_done := shift (ctx_done c)\<rparr>"
  let ?args = "\<lparr>rg_Group = grp, rg_Consumer = consumer, rg_Streams = [stream, ''>''],
                  rg_Count = 10, rg_Block = 2 * time_Second\<rparr>"
  obtain r s1 where x: "XReadGroup rc ?args s = (r, s1)" by fastforce
  show ?thesis
  proof (cases "ctx_done c 0")
    case False
    show ?thesis
    proof (cases r)
      case (Inl e)
      then show ?thesis
        using x False
        by (cases "ctx_done c 1"; cases "ctx_done c 2")
          (auto simp: look_def shift_def numeral_2_eq_2 le_Suc_eq
            intro!: exI [of _ "Suc (Suc 0)"] exI [of _ s1] exI [of _ "c\<lparr>ctx_done := shift (shift (shift (ctx_done c)))\<rparr>"])
    next
      case (Inr streams)
      obtain stop c2 where d: "deliver (concat (map snd streams)) ?c1 = (stop, c2)" by fastforce
      show ?thesis
      proof (cases stop)
        case True
        with Inr x d False show ?thesis by (simp add: look_def)
      next
        case cont: False
        with deliver_looks [OF d] obtain k where k: "ctx_done c2 = (\<lambda>j. ctx_done c (j + Suc k))"
          "\<forall>j < k. \<not> ctx_done c (Suc j)" by (auto simp: shift_def)
        have "\<forall>i \<le> k. \<not> ctx_done c i" using k(2) False by (metis Suc_le_eq not0_implies_Suc)
        with k(1) Inr x d False cont show ?thesis by (auto simp: look_def)
      qed
    qed
  qed (simp add: look_def)
qed

text \<open>
  The reading goroutine ends: once a look at the context finds it done, \<^verbatim>\<open>readLoop\<close> returns,
  within as many iterations as there were looks before, whatever Redis answers meanwhile.
\<close>

lemma readLoop_returns:
  assumes "ctx_done c i" "i < n"
  shows "fst (readLoop n rc stream grp consumer (s, c))"
  using assms
proof (induction n arbitrary: c s i)
  case (Suc n)
  from readLoop_iteration [of n rc stream grp consumer s c] show ?case
  proof (elim disjE exE conjE)
    fix k s1 c1
    assume next_look: "readLoop (Suc n) rc stream grp consumer (s, c) = readLoop n rc stream grp consumer (s1, c1)"
      and c1: "ctx_done c1 = (\<lambda>i. ctx_done c (i + Suc k))" and alive: "\<forall>i \<le> k. \<not> ctx_done c i"
    from alive Suc.prems(1) have "Suc k \<le> i" by (meson not_less_eq_eq)
    then have "ctx_done c1 (i - Suc k)" "i - Suc k < n" using c1 Suc.prems by auto
    from Suc.IH [OF this] show ?case by (simp only: next_look)
  qed
qed simp

lemma readLoop_traced:
  assumes "readLoop n (traced rc) stream grp consumer ((s, got), c) = (stopped, (s', got'), c')"
  shows "\<exists>new ds. got' = got @ new \<and> ch c' = ch c @ ds \<and> prefix ds (deliveries new) \<and>
     (\<not> stopped \<longrightarrow> ds = deliveries new)"
  using assms
proof (induction n arbitrary: s got c)
  case 0
  then show ?case by simp
next
  case (Suc n)
  let ?args = "\<lparr>rg_Group = grp, rg_Consumer = consumer, rg_Streams = [stream, ''>''],
                  rg_Count = 10, rg_Block = 2 * time_Second\<rparr>"
  obtain r s1 where x: "XReadGroup rc ?args s = (r, s1)" by fastforce
  show ?case
  proof (cases "ctx_done c 0")
    case True
    then show ?thesis using Suc.prems by (auto simp: look_def)
  next
    case alive: False
    show ?thesis
    proof (cases r)
      case (Inl e)
      then show ?thesis
        using Suc.prems Suc.IH [of s1 got "c\<lparr>ctx_done := shift (shift (shift (ctx_done c)))\<rparr>"] x alive
        by (auto simp: look_def traced_def split: bool.splits)
    next
      case (Inr streams)
      let ?msgs = "concat (map snd streams)"
      obtain stop c2 where d: "deliver ?msgs (c\<lparr>ctx_done := shift (ctx_done c)\<rparr>) = (stop, c2)" by fastforce
      from deliver_prefix [OF d] obtain ds where ds: "ch c2 = ch c @ ds" "prefix ds (deliveries ?msgs)"
        "\<not> stop \<longrightarrow> ds = deliveries ?msgs" by auto
      show ?thesis
      proof (cases stop)
        case True
        then show ?thesis using Suc.prems Inr x d alive ds
          by (intro exI [of _ ?msgs] exI [of _ ds]) (auto simp: look_def traced_def)
      next
        case False
        then have "readLoop n (traced rc) stream grp consumer ((s1, got @ ?msgs), c2) = (stopped, (s', got'), c')"
          using Suc.prems Inr x d alive by (simp add: look_def traced_def)
        from Suc.IH [OF this] obtain new es where "got' = got @ ?msgs @ new" "ch c' = ch c @ ds @ es"
          "prefix es (deliveries new)" "\<not> stopped \<longrightarrow> es = deliveries new" using ds(1) by auto
        then show ?thesis using ds(3) False by (intro exI [of _ "?msgs @ new"] exI [of _ "ds @ es"]) simp
      qed
    qed
  qed
qed

text \<open>The two parts of the goroutine: the messages reclaimed, none when that fails, and the loop.\<close>

lemma consume_parts:
  assumes "consume n (traced rc) stream grp consumer looks (s, []) = (stopped, (s', got), c)"
  obtains msgs stop c1 s1 where "deliver msgs \<lparr>ch = [], ctx_done = looks\<rparr> = (stop, c1)"
    "readLoop n (traced rc) stream grp consumer ((s1, msgs), c1) = (stopped, (s', got), c)"
proof -
  let ?args = "\<lparr>ac_Stream = stream, ac_Group = grp, ac_Consumer = consumer,
            ac_MinIdle = 30 * time_Second, ac_Start = ''0-0'', ac_Count = 100\<rparr>"
  obtain r s1 where x: "XAutoClaim rc ?args s = (r, s1)" by fastforce
  then have t: "XAutoClaim (traced rc) ?args (s, []) = (r, s1, case r of Inl e \<Rightarrow> [] | Inr msgs \<Rightarrow> msgs)"
    by (simp add: traced_def split: sum.split)
  show thesis
  proof (cases r)
    case (Inl e)
    show thesis by (rule that [of "[]" False _ s1]) (use assms t Inl in \<open>simp_all add: consume_def reclaimPending_def\<close>)
  next
    case (Inr msgs)
    show thesis by (rule that [of msgs _ _ s1, OF prod.collapse [symmetric]])
      (use assms t Inr in \<open>simp add: consume_def reclaimPending_def\<close>)
  qed
qed

text \<open>
  C29. The consumer loses and reorders nothing, and it ends: whatever Redis answers, what the
  goroutine of \<^verbatim>\<open>Subscribe\<close> has sent to the channel is the well-formed messages of all the batches
  it was given, the reclaimed ones first and then those read, in their order; all of them while
  it runs, and a prefix of them when it stopped because its context was done. Once a look finds
  the context done, and from then on it stays done, the goroutine has returned after at most as
  many iterations as there were looks.
\<close>

theorem consume_in_order:
  assumes "consume (Suc n) (traced rc) stream grp consumer looks (s, []) = (stopped, (s', got), c)"
    and "\<forall>i. looks i \<longrightarrow> looks (Suc i)"
  shows "prefix (ch c) (deliveries got) \<and> (\<not> stopped \<longrightarrow> ch c = deliveries got) \<and>
     ((\<exists>i \<le> n. looks i) \<longrightarrow> stopped)"
proof (cases rule: consume_parts [OF assms(1)])
  case (1 msgs stop c1 s1)
  from deliver_prefix [OF 1(1)] have ds: "prefix (ch c1) (deliveries msgs)" "\<not> stop \<longrightarrow> ch c1 = deliveries msgs" by auto
  show ?thesis
  proof (cases stop)
    case True
    with deliver_stopped [of msgs] 1(1) obtain k where "looks k" "ctx_done c1 = (\<lambda>i. looks (i + Suc k))" by force
    then have "ctx_done c1 0" using assms(2) by simp
    then show ?thesis using 1(2) ds(1) by (auto simp: look_def)
  next
    case False
    with deliver_looks [OF 1(1)] obtain k where k: "ctx_done c1 = (\<lambda>i. looks (i + k))" "\<forall>i < k. \<not> looks i" by auto
    have "stopped" if "looks i" "i \<le> n" for i
    proof -
      from k(2) that(1) have "k \<le> i" by (meson not_le)
      then have "ctx_done c1 (i - k)" "i - k < Suc n" using k(1) that by simp_all
      from readLoop_returns [OF this] show ?thesis using 1(2) by (metis fst_conv)
    qed
    with readLoop_traced [OF 1(2)] ds(2) False show ?thesis by auto
  qed
qed

text \<open>
  Publishing and parsing fit: the message \<^verbatim>\<open>Publish\<close> adds for an identifier parses back to a
  delivery of that identifier, under the message's own identifier, exactly when it is not empty.
\<close>

lemma publish_parse_roundtrip:
  "parseDelivery \<lparr>x_ID = mid, x_Values = publish_values tid\<rparr> =
     (if tid = [] then None else Some \<lparr>d_ID = mid, d_TaskID = tid\<rparr>)"
  by (simp add: parseDelivery_def publish_values_def)

subsection \<open>The ports\<close>

lemma on_redis_frame:
  "on_redis f w = (r, w') \<Longrightarrow> \<exists>s. w' = w\<lparr>rdb := s\<rparr> \<and> f (rdb w) = (r, s)"
  by (auto simp: on_redis_def split: prod.splits)

lemma Publish_frame:
  "Publish c s i w = (r, w') \<Longrightarrow> \<exists>x st. w' = w\<lparr>rdb := st\<rparr> \<and>
     XAdd c s (publish_values i) (rdb w) = (x, st) \<and> isl r = isl x"
  by (auto simp: Publish_def andThen_iff onError_iff dest!: on_redis_frame) (metis isl_map_sum sum.disc)+

lemma Ack_frame:
  "Ack c s g m w = (r, w') \<Longrightarrow> \<exists>x st. w' = w\<lparr>rdb := st\<rparr> \<and> XAck c s g m (rdb w) = (x, st)"
  by (auto simp: Ack_def onError_iff dest!: on_redis_frame)

lemma redis_Broker_simps [simp]:
  "broker_Publish (redis_Broker c) = Publish c" "broker_Ack (redis_Broker c) = Ack c"
  by (simp_all add: redis_Broker_def)

interpretation redis_ports: side_ports "redis_Broker c" SystemClock_Now UUIDv7Gen_New prom_Metrics for c
  by unfold_locales
    (auto simp: SystemClock_Now_def UUIDv7Gen_New_def dest!: Publish_frame Ack_frame)

text \<open>
  Any client with a history: the entries of the \<^verbatim>\<open>XADD\<close>s that succeeded, in order. The broker on
  it, whatever the server does, keeps the log of what was published.
\<close>

lemma recording_XAdd:
  "XAdd (recording rc) s v (st, h) = (r, st', h') \<longleftrightarrow>
     XAdd rc s v st = (r, st') \<and> h' = (if isl r then h else h @ [(s, v)])"
  by (auto simp: recording_def split: prod.splits sum.splits)

lemma recording_XAck: "XAck (recording rc) s g m (st, h) = (r, st', h') \<Longrightarrow> h' = h"
  by (auto simp: recording_def split: prod.splits)

lemma published_append: "published (h @ [(s, publish_values i)]) = published h @ [(s, i)]"
  by (simp add: published_def publish_values_def map_filter_def)

interpretation recorded: broker_log "redis_Broker (recording rc)" "published \<circ> snd" for rc
proof (unfold_locales, unfold redis_Broker_simps o_apply)
  show "published (snd (rdb w')) = published (snd (rdb w)) @ [(s, i)]"
    if "Publish (recording rc) s i w = (Inr x, w')" for s i x and w w' :: "('a \<times> _) world"
    using Publish_frame [OF that] by (cases "rdb w") (auto simp: recording_XAdd published_append)
  show "published (snd (rdb w')) = published (snd (rdb w))"
    if "Publish (recording rc) s i w = (Inl e, w')" for s i e and w w' :: "('a \<times> _) world"
    using Publish_frame [OF that] by (cases "rdb w") (auto simp: recording_XAdd)
  show "published (snd (rdb w')) = published (snd (rdb w))"
    if "Ack (recording rc) s g m w = (r, w')" for s g m r and w w' :: "('a \<times> _) world"
    using Ack_frame [OF that] by (cases "rdb w") (auto dest: recording_XAck)
qed

end
