(* ===== verification/System.thy ===== *)
theory System
  imports Dispatch Enqueue Task_Use_Cases Execute Redis_Broker
begin

text \<open>
  The three processes wired as \<^verbatim>\<open>src/internal/app\<close> wires them, on the PostgreSQL repository, the
  Redis broker, the system clock, the UUID generator and the Prometheus metrics; the contracts
  of the use cases are interpreted on them. The system is a step relation: the processes'
  actions interleave in any order, and between two actions the environment may change
  whatever is not the database (clocks, locks, driver faults, identifiers to come, the Redis
  server, the order in which the table returns its rows). The two operations that touch the
  database more than once are steps as wholes and also in their parts, so that other processes
  may act in between: an \<^verbatim>\<open>Enqueue\<close> as its key lookup (\<open>lookup\<close>) and its insertion (\<open>insert\<close>, of a
  command validated earlier), so that requests with one key may race; the processing of a
  delivery as \<open>get\<close>, \<open>beat\<close>, and \<open>settle\<close> or \<open>reject\<close> with a task read in an earlier state, so
  that other processes may act while a handler runs.
\<close>

definition gateway_enqueue :: "'r EnqueueUseCase" where
  "gateway_enqueue = NewEnqueue postgres_Repo SystemClock_Now UUIDv7Gen_New prom_Metrics []"

definition scheduler_loop :: "config_Scheduler \<Rightarrow> 'r redis_client \<Rightarrow> 'r ScheduleUseCase" where
  "scheduler_loop cfg rc =
     NewSchedule postgres_Repo (redis_Broker rc) prom_Metrics
       [WithPollInterval (cs_PollInterval cfg), WithBatchSize (cs_BatchSize cfg)]"

definition duration_half :: "duration \<Rightarrow> duration" where
  "duration_half d = word_of_int (if sint d \<ge> 0 then sint d div 2 else - ((- sint d) div 2))"

definition scheduler_monitor :: "config_Scheduler \<Rightarrow> 'r HeartbeatUseCase" where
  "scheduler_monitor cfg = NewHeartbeat postgres_Repo (cs_HBTimeout cfg) (duration_half (cs_HBTimeout cfg))"

definition worker_execute :: "config_Worker \<Rightarrow> Registry \<Rightarrow> 'r redis_client \<Rightarrow> 'r ExecuteUseCase" where
  "worker_execute cfg registry rc =
     NewExecute postgres_Repo (redis_Broker rc) registry SystemClock_Now prom_Metrics (cw_WorkerID cfg)"

text \<open>\<^verbatim>\<open>Run\<close> of the worker on the Redis broker: without a subscription it returns the error.\<close>

definition worker_Run :: "config_Worker \<Rightarrow> Registry \<Rightarrow> 'r redis_client \<Rightarrow> run_event list \<Rightarrow> 'r world \<Rightarrow> (go_error + bool) \<times> 'r world" where
  "worker_Run cfg registry rc es w =
     (case Subscribe rc taskStreamConst workerGroupName w of
        (Inl err, w1) \<Rightarrow> (Inl (errorf ''execute: subscribe: '' err), w1)
      | (Inr _, w1) \<Rightarrow>
          (case Execute_Run (worker_execute cfg registry rc) es w1 of (returned, w2) \<Rightarrow> (Inr returned, w2)))"

subsection \<open>Steps of the system\<close>

inductive sys_step :: "'r redis_client \<Rightarrow> 'r world \<Rightarrow> 'r world \<Rightarrow> bool" for rc where
  enqueue: "Enqueue_Handle gateway_enqueue cmd w = (r, w') \<Longrightarrow> sys_step rc w w'"
| lookup: "FindByIdempotencyKey k w = (rf, w') \<Longrightarrow> sys_step rc w w'"
| insert: "valid_cmd cmd \<Longrightarrow> register gateway_enqueue cmd start w = (r, w') \<Longrightarrow> sys_step rc w w'"
| get: "Get_Handle postgres_Repo tid w = (r, w') \<Longrightarrow> sys_step rc w w'"
| cancel: "Cancel_Handle postgres_Repo tid w = (r, w') \<Longrightarrow> sys_step rc w w'"
| republish: "Republish_Handle postgres_Repo tid w = (r, w') \<Longrightarrow> sys_step rc w w'"
| list: "List_Handle postgres_Repo f w = (r, w') \<Longrightarrow> sys_step rc w w'"
| tick: "tick (scheduler_loop cfg rc) w = (r, w') \<Longrightarrow> sys_step rc w w'"
| monitor: "w' = heartbeat_check (scheduler_monitor cfg) w \<Longrightarrow> sys_step rc w w'"
| beat: "Heartbeat tid wid w = (r, w') \<Longrightarrow> sys_step rc w w'"
| work: "process (worker_execute wcfg registry rc) d call es w = (b, w') \<Longrightarrow> sys_step rc w w'"
| settle: "GetByID tid (w0 :: 'r world) = (Inr task, w1) \<Longrightarrow> pg_inv w0 \<Longrightarrow> lib w = lib w0 \<Longrightarrow>
    w' = settle (worker_execute wcfg registry rc) task start m res w \<Longrightarrow> sys_step rc w w'"
| reject: "GetByID tid (w0 :: 'r world) = (Inr task, w1) \<Longrightarrow> pg_inv w0 \<Longrightarrow> lib w = lib w0 \<Longrightarrow>
    w' = markFailed (worker_execute wcfg registry rc) task msg m w \<Longrightarrow> sys_step rc w w'"
| cleanup: "CleanupExpired ttl w = (r, w') \<Longrightarrow> sys_step rc w w'"
| environment: "lib w' = lib w \<Longrightarrow> db w' = db w \<Longrightarrow> sys_step rc w w'"
| reorder: "lib w' = lib w \<Longrightarrow> mset (tasks (db w')) = mset (tasks (db w)) \<Longrightarrow>
    task_dependencies (db w') = task_dependencies (db w) \<Longrightarrow> sys_step rc w w'"

text \<open>The system starts on the tables the migration creates.\<close>

inductive reachable :: "'r redis_client \<Rightarrow> 'r world \<Rightarrow> bool" for rc where
  start: "uuid_ok (lib w) \<Longrightarrow> db w = empty_db \<Longrightarrow> reachable rc w"
| step: "reachable rc w \<Longrightarrow> sys_step rc w w' \<Longrightarrow> reachable rc w'"

subsection \<open>The contracts on the production wiring\<close>

interpretation prod: use_cases postgres_Repo pg_inv key view persisted "redis_Broker c" SystemClock_Now
  UUIDv7Gen_New prom_Metrics for c
  by unfold_locales

lemma scheduler_loop_ports [simp]:
  "su_repo (scheduler_loop cfg rc) = postgres_Repo" "su_broker (scheduler_loop cfg rc) = redis_Broker rc"
  "su_metrics (scheduler_loop cfg rc) = prom_Metrics" "su_batchSize (scheduler_loop cfg rc) = cs_BatchSize cfg"
  by (simp_all add: scheduler_loop_def NewSchedule_def WithPollInterval_def WithBatchSize_def)

lemma monitor_repo [simp]: "hb_repo (scheduler_monitor cfg) = postgres_Repo"
  by (simp add: scheduler_monitor_def NewHeartbeat_def)

subsection \<open>Every step keeps the invariant and the life cycle\<close>

lemma find_key_mset:
  assumes "mset xs = mset ys" "distinct (map f ys)"
  shows "find (\<lambda>x. f x = k) xs = find (\<lambda>x. f x = k) ys"
proof -
  have d: "distinct (map f xs)" using assms by (metis mset_eq_imp_distinct_iff mset_map)
  have s: "set xs = set ys" using assms(1) by (rule mset_eq_setD)
  show ?thesis
  proof (cases "find (\<lambda>x. f x = k) ys")
    case None
    then have "find (\<lambda>x. f x = k) xs = None" by (simp add: find_None_key s)
    with None show ?thesis by simp
  next
    case (Some y)
    then have "y \<in> set xs \<and> f y = k" using find_Some_distinct [OF assms(2)] s by auto
    then have "find (\<lambda>x. f x = k) xs = Some y" using find_Some_distinct [OF d] by blast
    with Some show ?thesis by simp
  qed
qed

lemma reorder_view:
  assumes "pg_inv w" "lib w' = lib w" "mset (tasks (db w')) = mset (tasks (db w))"
    "task_dependencies (db w') = task_dependencies (db w)"
  shows "pg_inv w' \<and> key w' = key w \<and> view w' = view w"
proof -
  have ok: "schema_ok (db w)" "statuses_ok (db w)" "uuid_ok (lib w)" using assms(1) by (simp_all add: pg_inv_def)
  have s: "set (tasks (db w')) = set (tasks (db w))" using assms(3) by (rule mset_eq_setD)
  have d: "distinct (map f (filter P (tasks (db w')))) = distinct (map f (filter P (tasks (db w))))" for f P
    using assms(3) by (metis mset_eq_imp_distinct_iff mset_filter mset_map)
  have "ids_ok (db w')" using d [of r_id "\<lambda>_. True"] ok(1) by (simp add: schema_ok_def ids_ok_def)
  moreover have "keys_ok (db w')" using d [of r_idempotency_key "\<lambda>r. r_idempotency_key r \<noteq> None"] ok(1)
    by (simp add: schema_ok_def keys_ok_def)
  moreover have "priorities_ok (db w')" "edges_ok (db w')"
    using ok(1) by (simp_all add: schema_ok_def priorities_ok_def edges_ok_def s assms(4))
  ultimately have "pg_inv w'"
    using ok assms(2) by (simp add: pg_inv_def schema_ok_def statuses_ok_def s)
  moreover have "select_task k (db w') = select_task k (db w)" for k
    unfolding select_task_def by (rule find_key_mset [OF assms(3) schema_ok_D(1) [OF ok(1)]])
  then have "view w' k = view w k" for k
    unfolding view_def assms(2) by (rule view_db_cong) (simp add: select_deps_def assms(4))
  ultimately show ?thesis using key_eq [OF assms(2)] by auto
qed

lemma read_task_key:
  assumes "GetByID tid w0 = (Inr task, w1)" "pg_inv w0" "lib w = lib w0"
  shows "\<exists>k. key w (ID task) = Some k"
  using pg_get [OF assms(1,2)] key_eq [OF assms(3)] by auto

lemma acts_on_evolves:
  "acts_on pg_inv key view K w w' \<Longrightarrow> pg_inv w' \<and> evolves (view w) (view w')"
  by (simp add: acts_on_def progresses_def)

lemma step_ok_evolves: "step_ok pg_inv key view w w' \<Longrightarrow> pg_inv w' \<and> evolves (view w) (view w')"
  by (simp add: step_ok_def)

lemma sys_step_ok:
  assumes "sys_step rc w w'" "pg_inv w"
  shows "pg_inv w' \<and> evolves (view w) (view w')"
  using assms
proof (cases rule: sys_step.cases)
  case (enqueue cmd r)
  then show ?thesis
    using prod.Enqueue_step assms(2) by (intro step_ok_evolves) (simp add: gateway_enqueue_def)
next
  case (lookup k rf)
  then show ?thesis using pg.find_frame [of k w rf w'] assms(2) by simp
next
  case (insert cmd start r)
  from assms(2) insert(2) [unfolded gateway_enqueue_def] insert(1) show ?thesis
    by (cases rule: prod.register_outcomes) (auto simp: same_view_def intro: evolves_new)
next
  case (get tid r)
  then show ?thesis using prod.Get_step assms(2) by (intro step_ok_evolves)
next
  case (cancel tid r)
  then show ?thesis using prod.Cancel_step assms(2) by (intro step_ok_evolves)
next
  case (republish tid r)
  then show ?thesis using prod.Republish_step assms(2) by (intro step_ok_evolves)
next
  case (list f r)
  then show ?thesis using prod.List_step assms(2) by (intro step_ok_evolves)
next
  case (tick cfg r)
  then show ?thesis using assms(2) by (intro step_ok_evolves) (rule prod.tick_step, simp_all)
next
  case (monitor cfg)
  then show ?thesis using assms(2) by (intro step_ok_evolves) (simp add: prod.check_step)
next
  case (beat tid wid r)
  then show ?thesis using pg.heartbeat_evolves [of tid wid w r w'] assms(2) by auto
next
  case (work wcfg registry d call es b)
  then show ?thesis using assms(2) prod.process_ok unfolding worker_execute_def by (intro acts_on_evolves)
next
  case (settle tid w0 task w1 wcfg registry start m res)
  from read_task_key [OF settle(1,2,3)] obtain k where "key w (ID task) = Some k" by blast
  from prod.settle_ok [OF assms(2) this settle(4) [unfolded worker_execute_def]] show ?thesis
    by (rule acts_on_evolves)
next
  case (reject tid w0 task w1 wcfg registry msg m)
  from read_task_key [OF reject(1,2,3)] obtain k where "key w (ID task) = Some k" by blast
  from prod.markFailed_ok [OF assms(2) this reject(4) [unfolded worker_execute_def]] show ?thesis
    using acts_on_evolves by auto
next
  case (cleanup ttl r)
  then show ?thesis using pg.cleanup_evolves [of ttl w r w'] assms(2) by auto
next
  case environment
  then show ?thesis using pg_frame [of w' w] assms(2) by simp
next
  case reorder
  then show ?thesis using reorder_view [OF assms(2) reorder] by simp
qed

lemma reachable_inv: "reachable rc w \<Longrightarrow> pg_inv w"
proof (induction rule: reachable.induct)
  case (start w)
  then show ?case by (simp add: pg_inv_def statuses_ok_def) (simp add: empty_db_def)
next
  case (step w w')
  then show ?case using sys_step_ok by blast
qed

text \<open>
  C14. The invariant of the whole system: in every state the processes can reach from the
  migrated database, in any interleaving and with any failures of driver and broker, every
  stored task has one of the five statuses and a priority between 0 and 10, no two tasks share
  an identifier or an idempotency key, and every dependency edge joins two stored tasks.
\<close>

theorem reachable_consistent:
  assumes "reachable rc w"
  shows "schema_ok (db w) \<and> statuses_ok (db w)"
  using reachable_inv [OF assms] by (simp add: pg_inv_def)

text \<open>
  C15. The life cycle: across every step the system can take from a reachable state, each stored
  task keeps its identifier, type, payload, priority, creation time and idempotency key, gains no
  dependency, and keeps its status or makes one move of the transition table; a task that was not
  there before is pending, and a task that is no longer there was completed or cancelled.
\<close>

theorem sys_step_life_cycle:
  assumes "reachable rc w" "sys_step rc w w'"
  shows "evolves (view w) (view w')"
  using sys_step_ok [OF assms(2) reachable_inv [OF assms(1)]] by blast

text \<open>
  C13. Processing a delivery is confined to its task: whatever Redis, the driver, the handler and
  the context do, no other task changes, the processed one is not removed and keeps its
  identity, and once it is completed or cancelled its status stays.
\<close>

theorem process_confined:
  assumes "pg_inv w" "process (worker_execute cfg reg rc) d call es w = (b, w')"
  shows "(\<forall>k. key w (d_TaskID d) \<noteq> Some k \<longrightarrow> view w' k = view w k) \<and>
     (\<forall>k t. view w k = Some t \<longrightarrow> (\<exists>t'. view w' k = Some t' \<and> same_identity t t' \<and>
        (terminal (Status t) \<longrightarrow> Status t' = Status t)))"
proof -
  have a: "acts_on pg_inv key view {k. key w (d_TaskID d) = Some k} w w'"
    using prod.process_ok [OF assms(1)] assms(2) by (simp add: worker_execute_def)
  then have p: "progresses (view w) (view w')" by (simp add: acts_on_def)
  show ?thesis
    using a progresses_identity [OF p] progresses_terminal [OF p]
    by (auto simp: acts_on_def) (metis option.inject)
qed

end
