(* ===== verification/Dependencies.thy ===== *)
theory Dependencies
  imports System
begin

text \<open>
  The order that the dependencies impose on the whole system. A step of any process either
  starts nothing and stores nothing new (\<open>carries\<close>), stores one new pending task, or is the
  scheduler's pick, which marks runnable tasks only. So in every reachable state a task that
  was started has its dependencies completed, and the stored graph has no cycle but that of a
  task that names itself.
\<close>

text \<open>Every task that has been started depends on completed tasks only.\<close>

definition dependencies_done :: "'r world \<Rightarrow> bool" where
  "dependencies_done w \<longleftrightarrow>
     (\<forall>k t u. view w k = Some t \<longrightarrow> started (Status t) \<longrightarrow> (k, u) \<in> dep_edges (db w) \<longrightarrow>
        (\<exists>t'. view w u = Some t' \<and> Status t' = StatusCompleted))"

text \<open>What the scheduler's pick may do to the table.\<close>

definition starts_runnable :: "'r world \<Rightarrow> 'r world \<Rightarrow> bool" where
  "starts_runnable w w' \<longleftrightarrow>
     (\<forall>k. view w' k = view w k \<or>
        (\<exists>t at now. view w k = Some t \<and> runnable w now k \<and>
           view w' k = Some (t\<lparr>Status := StatusRunning, UpdatedAt := at\<rparr>)))"

lemmas dependencies_doneI = dependencies_done_def [THEN iffD2, rule_format]
lemmas dependencies_doneD = dependencies_done_def [THEN iffD1, rule_format]

subsection \<open>The edges of the view\<close>

lemma dep_edges_iff:
  assumes "pg_inv w"
  shows "(k, u) \<in> dep_edges (db w) \<longleftrightarrow>
     (\<exists>t d. view w k = Some t \<and> d \<in> set (Dependencies t) \<and> key w d = Some u)"
proof -
  have ok: "schema_ok (db w)" "uuid_ok (lib w)" using assms by (simp_all add: pg_inv_def)
  have e: "(k, u) \<in> dep_edges (db w) \<longleftrightarrow> u \<in> set (select_deps k (db w))"
    by (force simp: dep_edges_def select_deps_def)
  show ?thesis
  proof (cases "select_task k (db w)")
    case None
    then have "k \<notin> r_id ` set (tasks (db w))" by (simp add: select_task_def find_None_key)
    then have "(k, u) \<notin> dep_edges (db w)" using ok(1) by (force simp: schema_ok_def edges_ok_def dep_edges_def)
    with None show ?thesis by (simp add: view_def view_db_def)
  next
    case (Some r)
    then show ?thesis
      using ok(2) select_task_id [OF Some] by (auto simp: e view_def view_db_def stored_task_def)
  qed
qed

lemma dep_edge_of:
  assumes "pg_inv w" "view w k = Some t" "d \<in> set (Dependencies t)"
  shows "\<exists>u. key w d = Some u \<and> (k, u) \<in> dep_edges (db w)"
proof -
  have ok: "uuid_ok (lib w)" using assms(1) by (simp add: pg_inv_def)
  from assms(2,3) obtain u where "d = fromUUID (lib w) u"
    by (auto simp: view_def view_db_def stored_task_def)
  then have "key w d = Some u" using ok by simp
  with assms show ?thesis using dep_edges_iff [OF assms(1)] by blast
qed

lemma dep_edges_stored: "pg_inv w \<Longrightarrow> (k, u) \<in> dep_edges (db w) \<Longrightarrow> view w u \<noteq> None"
  using dep_exists [of "db w" u k]
  by (force simp: dep_edges_def select_deps_def pg_inv_def view_def view_db_def)

text \<open>A table whose tasks keep their identity has no new edges.\<close>

lemma dep_edges_shrink:
  assumes "pg_inv w" "pg_inv w'" "key w' = key w"
    and "\<And>k t'. view w' k = Some t' \<Longrightarrow> \<exists>t. view w k = Some t \<and> same_identity t t'"
  shows "dep_edges (db w') \<subseteq> dep_edges (db w)"
proof (rule subrelI)
  fix k u
  assume "(k, u) \<in> dep_edges (db w')"
  then obtain t' d where t': "view w' k = Some t'" "d \<in> set (Dependencies t')" "key w d = Some u"
    using assms(3) by (auto simp: dep_edges_iff [OF assms(2)])
  from assms(4) [OF t'(1)] obtain t where "view w k = Some t" "same_identity t t'" by blast
  with t' show "(k, u) \<in> dep_edges (db w)" by (auto simp: dep_edges_iff [OF assms(1)] same_identity_def)
qed

lemma dep_edges_new:
  assumes "pg_inv w" "pg_inv w'" "key w' = key w" "view w k = None" "view w' = (view w)(k \<mapsto> t')"
  shows "\<exists>V. dep_edges (db w') = dep_edges (db w) \<union> {k} \<times> V"
proof (rule exI [of _ "{u. (k, u) \<in> dep_edges (db w')}"])
  have "(x, u) \<in> dep_edges (db w') \<longleftrightarrow> (x, u) \<in> dep_edges (db w) \<union> {k} \<times> {u. (k, u) \<in> dep_edges (db w')}" for x u
    using assms(3-5) by (cases "x = k") (simp_all add: dep_edges_iff [OF assms(1)] dep_edges_iff [OF assms(2)])
  then have "p \<in> dep_edges (db w') \<longleftrightarrow> p \<in> dep_edges (db w) \<union> {k} \<times> {u. (k, u) \<in> dep_edges (db w')}" for p
    by (cases p) blast
  then show "dep_edges (db w') = dep_edges (db w) \<union> {k} \<times> {u. (k, u) \<in> dep_edges (db w')}" by (rule set_eqI)
qed

subsection \<open>The three kinds of steps\<close>

lemma starts_runnable_cong:
  "view v = view w \<Longrightarrow> key v = key w \<Longrightarrow> view v' = view w' \<Longrightarrow> starts_runnable v v' \<longleftrightarrow> starts_runnable w w'"
  by (simp add: starts_runnable_def runnable_def)

lemma pick_starts_picked:
  assumes "pg_inv w" "PickAndMarkRunning n w = (Inr ts, w')"
  shows "pg_inv w' \<and> key w' = key w \<and> starts_runnable w w'"
proof -
  show ?thesis
  proof (rule pick_rows [OF assms])
    fix rows now
    assume s: "select_ready (locked w) (timestamptz (clock w 0)) (int32_of_int n) (db w) = Inr rows"
      and d: "db w' = snd (update_where (\<lambda>r. r_id r \<in> r_id ` set rows)
            (\<lambda>r. r\<lparr>r_status := ''running'', r_updated_at := timestamptz now\<rparr>) (db w))" and l: "lib w' = lib w"
      and sel: "\<And>r. r \<in> set rows \<Longrightarrow> select_task (r_id r) (db w) = Some r"
    have "view w' k = view w k \<or> (\<exists>t at now. view w k = Some t \<and> runnable w now k \<and>
        view w' k = Some (t\<lparr>Status := StatusRunning, UpdatedAt := at\<rparr>))" for k
    proof (cases "k \<in> r_id ` set rows")
      case True
      then obtain r where r: "r \<in> set rows" "k = r_id r" by auto
      then have "runnable w (timestamptz (clock w 0)) k"
        using select_ready_subset [OF s r(1)] ready_runnable [OF assms(1) sel [OF r(1)]] by simp
      then show ?thesis using True view_selected [OF sel [OF r(1)]] r(2) by (auto simp: view_marked [OF d l])
    qed (simp add: view_marked [OF d l])
    then have "starts_runnable w w'" unfolding starts_runnable_def by (rule allI)
    moreover have "pg_inv w'" "key w' = key w" using pg_pick [OF assms(2,1)] by blast+
    ultimately show ?thesis by simp
  qed
qed

text \<open>The same for a pick that reports an error, whose transaction may have been committed.\<close>

lemma pick_starts:
  assumes "pg_inv w" "PickAndMarkRunning n w = (r, w')"
  shows "pg_inv w' \<and> key w' = key w \<and> starts_runnable w w'"
  using repo_all_or_nothing(4) keeps_lib_repo(4) assms(2)
proof (cases rule: outcome_cases)
  case nothing
  then show ?thesis using pg_frame [of w' w] assms(1) by (simp add: starts_runnable_def)
next
  case (all ts v w1)
  have v: "pg_inv v" "key v = key w" "view v = view w" using pg_frame [OF all(3,2)] assms(1) by simp_all
  from pick_starts_picked [OF v(1) all(1)] have w1: "pg_inv w1" "key w1 = key w" "starts_runnable v w1"
    by (simp_all add: v)
  then have w': "pg_inv w'" "key w' = key w" "view w1 = view w'" using pg_frame [OF all(6,7)] by simp_all
  with w1(3) starts_runnable_cong [OF v(3,2)] show ?thesis by blast
qed

lemma tick_starts:
  assumes "pg_inv w" "tick (scheduler_loop cfg rc) w = (r, w')"
  shows "pg_inv w' \<and> key w' = key w \<and> starts_runnable w w'"
proof -
  obtain rp w1 where p: "PickAndMarkRunning (cs_BatchSize cfg) w = (rp, w1)" by fastforce
  from pick_starts [OF assms(1) p] have w1: "pg_inv w1" "key w1 = key w" "starts_runnable w w1" by blast+
  then have "same_view pg_inv key view w1 (dispatch_loop (redis_Broker rc) prom_Metrics ts w1)" for ts
    by (intro prod.dispatch_quiet)
  then have "pg_inv w' \<and> key w' = key w1 \<and> view w' = view w1"
    using assms(2) p w1(1) by (cases rp) (auto simp: tick_def op_defs same_view_def)
  with w1 show ?thesis by (simp add: starts_runnable_def)
qed

lemma acts_on_carries:
  "acts_on pg_inv key view K w w' \<Longrightarrow> pg_inv w' \<and> key w' = key w \<and> carries (view w) (view w')"
  by (simp add: acts_on_def progresses_def)

lemma step_ok_key: "step_ok pg_inv key view w w' \<Longrightarrow> pg_inv w' \<and> key w' = key w"
  by (simp add: step_ok_def)

text \<open>A step starts nothing and stores nothing new, stores one valid pending task, or starts runnable tasks.\<close>

lemma sys_step_cases3:
  assumes "sys_step rc w w'" "pg_inv w"
  obtains (carried) "pg_inv w'" "key w' = key w" "carries (view w) (view w')"
  | (stored) k t' where "pg_inv w'" "key w' = key w" "view w k = None" "valid_task t'" "Status t' = StatusPending"
      "view w' = (view w)(k \<mapsto> t')"
  | (picked) "pg_inv w'" "key w' = key w" "starts_runnable w w'"
  using assms(1)
proof (cases rule: sys_step.cases)
  case (enqueue cmd r)
  from assms(2) enqueue [unfolded gateway_enqueue_def] show thesis
    by (cases rule: prod.Enqueue_outcomes) (use that(1,2) in \<open>auto simp: same_view_def\<close>)
next
  case (lookup k rf)
  then show thesis using that(1) pg.find_frame [of k w rf w'] assms(2) by simp
next
  case (insert cmd start r)
  from assms(2) insert(2) [unfolded gateway_enqueue_def] insert(1) show thesis
    by (cases rule: prod.register_outcomes) (use that(1,2) in \<open>auto simp: same_view_def\<close>)
next
  case (get tid r)
  then show thesis using that(1) pg.get_frame [of tid w r w'] assms(2) by (simp add: Get_Handle_def)
next
  case (cancel tid r)
  then show thesis
    using that(1) prod.Cancel_carries [OF assms(2)] step_ok_key [OF prod.Cancel_step [OF assms(2)]] by blast
next
  case (republish tid r)
  then show thesis
    using that(1) prod.Republish_carries [OF assms(2)] step_ok_key [OF prod.Republish_step [OF assms(2)]] by blast
next
  case (list f r)
  then show thesis using that(1) pg.list_frame [of f w r w'] assms(2) by (simp add: List_Handle_def)
next
  case (tick cfg r)
  then show thesis using that(3) tick_starts [OF assms(2)] by blast
next
  case (monitor cfg)
  then obtain r where "ResetStuckRunning (cs_HBTimeout cfg) w = (r, w')"
    by (cases "ResetStuckRunning (cs_HBTimeout cfg) w")
      (simp add: heartbeat_check_def scheduler_monitor_def NewHeartbeat_def)
  then show thesis
    using that(1) pg.reset_carries [of "cs_HBTimeout cfg" w r w'] pg.reset_evolves [of "cs_HBTimeout cfg" w r w'] assms(2)
    by simp
next
  case (beat tid wid r)
  then show thesis
    using that(1) pg.heartbeat_carries [of tid wid w r w'] pg.heartbeat_evolves [of tid wid w r w'] assms(2) by simp
next
  case (work wcfg registry d call es b)
  then show thesis
    using that(1) acts_on_carries [OF prod.process_ok [OF assms(2)]] unfolding worker_execute_def by blast
next
  case (settle tid w0 task w1 wcfg registry start m res)
  from read_task_key [OF settle(1,2,3)] obtain k where "key w (ID task) = Some k" by blast
  from acts_on_carries [OF prod.settle_ok [OF assms(2) this settle(4) [unfolded worker_execute_def]]]
  show thesis using that(1) by blast
next
  case (reject tid w0 task w1 wcfg registry msg m)
  from read_task_key [OF reject(1,2,3)] obtain k where "key w (ID task) = Some k" by blast
  from acts_on_carries [OF conjunct1 [OF prod.markFailed_ok [OF assms(2) this reject(4) [unfolded worker_execute_def]]]]
  show thesis using that(1) by blast
next
  case (cleanup ttl r)
  then show thesis
    using that(1) pg.cleanup_carries [of ttl w r w'] pg.cleanup_evolves [of ttl w r w'] assms(2) by simp
next
  case environment
  then show thesis using that(1) pg_frame [of w' w] assms(2) by simp
next
  case reorder
  then show thesis using that(1) reorder_view [OF assms(2) reorder] by simp
qed

subsection \<open>Dependencies first\<close>

lemma carries_dependencies_done:
  assumes "pg_inv w" "pg_inv w'" "key w' = key w" "carries (view w) (view w')" "dependencies_done w"
  shows "dependencies_done w'"
proof (rule dependencies_doneI)
  fix k t' u
  assume k: "view w' k = Some t'" "started (Status t')" "(k, u) \<in> dep_edges (db w')"
  have past: "\<exists>t. view w k = Some t \<and> same_identity t t' \<and> (started (Status t') \<longrightarrow> started (Status t)) \<and>
      (terminal (Status t) \<longrightarrow> Status t' = Status t)" if "view w' k = Some t'" for k t'
    using assms(4) that by (auto simp: carries_def)
  have "(k, u) \<in> dep_edges (db w)" using dep_edges_shrink [OF assms(1-3)] past k(3) by blast
  then obtain tu where u: "view w u = Some tu" "Status tu = StatusCompleted"
    using past [OF k(1)] k(2) dependencies_doneD [OF assms(5)] by blast
  from dep_edges_stored [OF assms(2) k(3)] obtain tu' where "view w' u = Some tu'" by blast
  with past [of u tu'] u show "\<exists>t'. view w' u = Some t' \<and> Status t' = StatusCompleted"
    by (auto simp: terminal_def)
qed

lemma stored_dependencies_done:
  assumes "pg_inv w" "pg_inv w'" "key w' = key w" "view w k = None" "Status t' = StatusPending"
    "view w' = (view w)(k \<mapsto> t')" "dependencies_done w"
  shows "dependencies_done w'"
proof (rule dependencies_doneI)
  fix x t u
  assume x: "view w' x = Some t" "started (Status t)" "(x, u) \<in> dep_edges (db w')"
  with assms(5,6) have "x \<noteq> k" by (auto simp: started_def)
  with x(1,3) assms(3,6) have "view w x = Some t" "(x, u) \<in> dep_edges (db w)"
    by (simp_all add: dep_edges_iff [OF assms(1)] dep_edges_iff [OF assms(2)])
  with dependencies_doneD [OF assms(7)] x(2) have "\<exists>t'. view w u = Some t' \<and> Status t' = StatusCompleted" by blast
  then show "\<exists>t'. view w' u = Some t' \<and> Status t' = StatusCompleted" using assms(4,6) by auto
qed

lemma starts_identity:
  assumes "starts_runnable w w'" "view w' k = Some t'"
  shows "\<exists>t. view w k = Some t \<and> same_identity t t' \<and> (Status t = StatusCompleted \<longrightarrow> t' = t) \<and>
     (started (Status t') \<longrightarrow> started (Status t) \<or> (\<exists>now. runnable w now k))"
proof -
  from assms(1) have "view w' k = view w k \<or> (\<exists>t at now. view w k = Some t \<and> runnable w now k \<and>
      view w' k = Some (t\<lparr>Status := StatusRunning, UpdatedAt := at\<rparr>))" by (simp add: starts_runnable_def)
  then show ?thesis
  proof (elim disjE exE conjE)
    assume "view w' k = view w k"
    with assms(2) have "view w k = Some t'" by simp
    then show ?thesis by simp
  next
    fix t at now
    assume "view w k = Some t" "runnable w now k" "view w' k = Some (t\<lparr>Status := StatusRunning, UpdatedAt := at\<rparr>)"
    then show ?thesis using assms(2) by (auto simp: same_identity_def runnable_def)
  qed
qed

lemma runnable_edge:
  assumes "pg_inv w" "runnable w now k" "(k, u) \<in> dep_edges (db w)"
  shows "\<exists>t'. view w u = Some t' \<and> Status t' = StatusCompleted"
  using assms(2,3) by (force simp: runnable_def dep_edges_iff [OF assms(1)])

lemma starts_dependencies_done:
  assumes "pg_inv w" "pg_inv w'" "key w' = key w" "starts_runnable w w'" "dependencies_done w"
  shows "dependencies_done w'"
proof (rule dependencies_doneI)
  fix k t' u
  assume k: "view w' k = Some t'" "started (Status t')" "(k, u) \<in> dep_edges (db w')"
  have "(k, u) \<in> dep_edges (db w)"
    using dep_edges_shrink [OF assms(1-3)] starts_identity [OF assms(4)] k(3) by blast
  then obtain tu where u: "view w u = Some tu" "Status tu = StatusCompleted"
    using starts_identity [OF assms(4) k(1)] k(2) dependencies_doneD [OF assms(5)] runnable_edge [OF assms(1)]
    by blast
  from dep_edges_stored [OF assms(2) k(3)] obtain tu' where "view w' u = Some tu'" by blast
  with starts_identity [OF assms(4) this] u show "\<exists>t'. view w' u = Some t' \<and> Status t' = StatusCompleted" by auto
qed

lemma reachable_dependencies:
  assumes "reachable rc w"
  shows "dependencies_done w"
  using assms
proof (induction rule: reachable.induct)
  case (start w)
  then show ?case by (simp add: dependencies_done_def dep_edges_def empty_db_def)
next
  case (step w w')
  have inv: "pg_inv w" by (rule reachable_inv [OF step(1)])
  from step(2) inv show ?case
    by (cases rule: sys_step_cases3)
      (use step(3) carries_dependencies_done [OF inv] stored_dependencies_done [OF inv]
        starts_dependencies_done [OF inv] in blast)+
qed

text \<open>
  C2. Dependencies come first, in the whole system: in every state the processes can reach, in
  any interleaving and with any failures, a task that is running, completed or failed has all
  the dependencies it still lists completed.
\<close>

theorem dependencies_first:
  assumes "reachable rc w"
  shows "dependencies_done w"
  using assms by (rule reachable_dependencies)

subsection \<open>No cycles\<close>

lemma acyclic_stored:
  assumes "pg_inv w" "pg_inv w'" "key w' = key w" "view w k = None" "view w' = (view w)(k \<mapsto> t')"
    "acyclic (dep_edges (db w) - Id)"
  shows "acyclic (dep_edges (db w') - Id)"
proof -
  from dep_edges_new [OF assms(1-5)] obtain V where "dep_edges (db w') = dep_edges (db w) \<union> {k} \<times> V" by blast
  then have e: "dep_edges (db w') - Id = (dep_edges (db w) - Id) \<union> {k} \<times> (V - {k})" by auto
  have "k \<notin> Range (dep_edges (db w) - Id)" using dep_edges_stored [OF assms(1)] assms(4) by blast
  then show ?thesis unfolding e by (intro acyclic_new_source assms(6)) auto
qed

lemma sys_step_acyclic:
  assumes "sys_step rc w w'" "pg_inv w" "acyclic (dep_edges (db w) - Id)"
  shows "acyclic (dep_edges (db w') - Id)"
  using assms(1,2)
proof (cases rule: sys_step_cases3)
  case carried
  then have "dep_edges (db w') \<subseteq> dep_edges (db w)"
    by (intro dep_edges_shrink [OF assms(2)]) (auto simp: carries_def)
  then show ?thesis using assms(3) by (blast intro: acyclic_subset)
next
  case (stored k t')
  then show ?thesis using acyclic_stored [OF assms(2)] assms(3) by blast
next
  case picked
  then have "dep_edges (db w') \<subseteq> dep_edges (db w)"
    using starts_identity by (intro dep_edges_shrink [OF assms(2)]) blast+
  then show ?thesis using assms(3) by (blast intro: acyclic_subset)
qed

lemma reachable_no_cycle: "reachable rc w \<Longrightarrow> acyclic (dep_edges (db w) - Id)"
proof (induction rule: reachable.induct)
  case (start w)
  then show ?case by (simp add: dep_edges_def empty_db_def acyclic_def)
next
  case (step w w')
  then show ?case using sys_step_acyclic reachable_inv by blast
qed

text \<open>
  C17. The stored dependency graph never closes a cycle over two or more tasks: in every reachable
  state the edges, self-references left aside, are acyclic.
\<close>

theorem reachable_acyclic:
  assumes "reachable rc w"
  shows "acyclic (dep_edges (db w) - Id)"
  by (rule reachable_no_cycle [OF assms])

text \<open>
  C18. No deadlock among pending tasks: in every reachable state and at every time a pending task
  can be dispatched, or it waits, directly or not, for a task that can be dispatched, for one
  that is held up by itself (running, failed, cancelled, or scheduled for later), or for one
  that was stored as its own dependency.
\<close>

theorem pending_no_deadlock:
  assumes "reachable rc w" "view w k = Some t" "Status t = StatusPending"
  shows "\<exists>u. (k, u) \<in> (dep_edges (db w))\<^sup>* \<and>
     (runnable w now u \<or> holds_up w now u \<or> (u, u) \<in> dep_edges (db w))"
  by (rule waiting_ends [OF reachable_inv [OF assms(1)] reachable_no_cycle [OF assms(1)] assms(2,3)])

end
