(* ===== verification/Outcomes.thy ===== *)
theory Outcomes
  imports System Postgres_Total
begin

text \<open>
  What a worker makes of a delivery, on the production wiring and with a driver that does not
  fail: the task ends in the status its result asks for, the message is acknowledged, a
  failed task goes to the dead-letter stream. Any number of heartbeats may come before the
  handler returns. And what is left of a delivery when the worker's context ends and the driver
  refuses the calls that follow.
\<close>

text \<open>A task whose row only heartbeats have touched.\<close>

definition beaten :: "Task \<Rightarrow> Task \<Rightarrow> bool" where
  "beaten t t1 \<longleftrightarrow> (\<exists>at wid. t1 = t\<lparr>UpdatedAt := at, WorkerID := wid\<rparr>)"

definition xack :: "'r redis_client \<Rightarrow> string \<Rightarrow> 'r \<Rightarrow> 'r" where
  "xack rc msgID s = snd (XAck rc taskStreamConst workerGroupName msgID s)"

definition xadd_dlq :: "'r redis_client \<Rightarrow> TaskID \<Rightarrow> 'r \<Rightarrow> 'r" where
  "xadd_dlq rc tid s = snd (XAdd rc dlqStream (publish_values tid) s)"

lemma beaten_refl [simp]: "beaten t t"
  unfolding beaten_def by (rule exI [of _ "UpdatedAt t"], rule exI [of _ "WorkerID t"]) simp

lemma beaten_upd: "beaten t t1 \<Longrightarrow> beaten t (t1\<lparr>UpdatedAt := at, WorkerID := wid\<rparr>)"
  by (force simp: beaten_def)

lemma beaten_fields:
  "beaten t t1 \<Longrightarrow> Status t1 = Status t \<and> AttemptCount t1 = AttemptCount t \<and> RetryLimit t1 = RetryLimit t \<and>
     same_identity t t1"
  by (auto simp: beaten_def same_identity_def)

lemma view_upd [simp]:
  "view (w\<lparr>rdb := s\<rparr>) = view w" "view (w\<lparr>clock := c\<rparr>) = view w" "view (prom_upd f w) = view w"
  "key (w\<lparr>rdb := s\<rparr>) = key w" "key (w\<lparr>clock := c\<rparr>) = key w" "key (prom_upd f w) = key w"
  "no_faults (prom_upd f w) = no_faults w" "pg_inv (w\<lparr>clock := c\<rparr>) = pg_inv w" "pg_inv (prom_upd f w) = pg_inv w"
  by (simp_all add: view_def key_def fun_eq_iff prom_upd_def pg_inv_def)

lemma Ack_world: "snd (Ack rc taskStreamConst workerGroupName m w) = w\<lparr>rdb := xack rc m (rdb w)\<rparr>"
  by (cases "XAck rc taskStreamConst workerGroupName m (rdb w)")
    (simp add: Ack_def on_redis_def xack_def)

lemma Publish_world: "snd (Publish rc dlqStream tid w) = w\<lparr>rdb := xadd_dlq rc tid (rdb w)\<rparr>"
proof -
  obtain r s where "XAdd rc dlqStream (publish_values tid) (rdb w) = (r, s)" by fastforce
  then show ?thesis
    by (cases r) (simp_all add: Publish_def on_redis_def xadd_dlq_def op_defs)
qed

lemma worker_ports [simp]:
  "xu_repo (worker_execute cfg reg rc) = postgres_Repo" "xu_broker (worker_execute cfg reg rc) = redis_Broker rc"
  "xu_registry (worker_execute cfg reg rc) = reg" "xu_clock (worker_execute cfg reg rc) = SystemClock_Now"
  "xu_metrics (worker_execute cfg reg rc) = prom_Metrics"
  "xu_workerID (worker_execute cfg reg rc) = cw_WorkerID cfg"
  by (simp_all add: worker_execute_def NewExecute_def)

lemma stored_counts_fit:
  assumes "view w k = Some t"
  shows "fits_int32 (AttemptCount t)" "fits_int32 (RetryLimit t)"
proof -
  have "fits_int32 (int_of_int32 x)" for x
    using sint_greater_eq [of x] sint_lt [of x]
    by (simp add: fits_int32_def int_of_int32_def sint_up_scast is_up)
  then show "fits_int32 (AttemptCount t)" "fits_int32 (RetryLimit t)"
    using assms by (auto simp: view_def view_db_def stored_task_def task_of_row_def)
qed

subsection \<open>The three marks\<close>

lemma update_total_view:
  assumes "no_faults w" "key w tid = Some k" "view w k = Some t" "m (clock w 0) t = Inr t'"
  shows "\<exists>w1. UpdateTask tid m w = (Inr t', w1) \<and> view w1 = (view w)(k \<mapsto> persisted t t') \<and> rdb w1 = rdb w"
  using UpdateTask_total [where m = m, OF assms] UpdateTask_view [OF assms(3) refl] by simp

lemma markCompleted_total:
  assumes "no_faults w" "key w (ID task) = Some k" "view w k = Some t" "Status t = StatusRunning"
  shows "\<exists>t'. view (markCompleted (worker_execute cfg reg rc) task res m w) = (view w)(k \<mapsto> t') \<and>
     same_identity t t' \<and> Status t' = StatusCompleted \<and> Result t' = res \<and> WorkerID t' = cw_WorkerID cfg \<and>
     rdb (markCompleted (worker_execute cfg reg rc) task res m w) = xack rc m (rdb w)"
proof -
  let ?m = "completed_mutation res (cw_WorkerID cfg)"
  have "?m (clock w 0) t = Inr (t\<lparr>Status := StatusCompleted, UpdatedAt := clock w 0, Result := res,
      WorkerID := cw_WorkerID cfg\<rparr>)" using assms(4) by (simp add: completed_Inr_iff)
  from update_total_view [where m = ?m, OF assms(1-3) this] show ?thesis
    by (fastforce simp: markCompleted_def ack_def Ack_world intro: persisted_identity)
qed

lemma markFailed_total:
  assumes "no_faults w" "key w (ID task) = Some k" "view w k = Some t" "Status t = StatusRunning"
  shows "\<exists>t'. view (markFailed (worker_execute cfg reg rc) task msg m w) = (view w)(k \<mapsto> t') \<and>
     same_identity t t' \<and> Status t' = StatusFailed \<and> LastError t' = msg \<and> WorkerID t' = [] \<and>
     AttemptCount t' = AttemptCount t \<and>
     rdb (markFailed (worker_execute cfg reg rc) task msg m w) = xack rc m (xadd_dlq rc (ID task) (rdb w))"
proof -
  have m: "failed_mutation msg (clock w 0) t = Inr (t\<lparr>Status := StatusFailed, UpdatedAt := clock w 0,
      LastError := msg, WorkerID := []\<rparr>)" using assms(4) by (simp add: failed_Inr_iff)
  have "AttemptCount (persisted t (t\<lparr>Status := StatusFailed, UpdatedAt := clock w 0,
      LastError := msg, WorkerID := []\<rparr>)) = AttemptCount t"
    using stored_counts_fit(1) [OF assms(3)] by (simp add: persisted_attempts)
  with update_total_view [where m = "failed_mutation msg", OF assms(1-3) m] show ?thesis
    by (fastforce simp: markFailed_def ack_def to_dlq_def Ack_world Publish_world intro: persisted_identity)
qed

lemma markRetry_total:
  assumes "no_faults w" "key w (ID task) = Some k" "view w k = Some t" "Status t = StatusRunning"
    and "fits_int32 (AttemptCount task)"
  shows "\<exists>t' at. view (markRetry (worker_execute cfg reg rc) task e m w) = (view w)(k \<mapsto> t') \<and>
     same_identity t t' \<and> Status t' = StatusPending \<and> AttemptCount t' = AttemptCount task \<and>
     RetryLimit t' = RetryLimit t \<and> LastError t' = Error e \<and> WorkerID t' = [] \<and>
     ScheduledAt t' = timestamptz (time_Add at (Delay DefaultBackoff (AttemptCount t'))) \<and>
     rdb (markRetry (worker_execute cfg reg rc) task e m w) = xack rc m (rdb w)"
proof -
  let ?w = "w\<lparr>clock := shift (clock w)\<rparr>" and ?at = "time_Add (clock w 0) (Delay DefaultBackoff (AttemptCount task))"
  let ?m = "retry_mutation (AttemptCount task) (Error e) ?at"
  let ?t = "t\<lparr>Status := StatusPending, UpdatedAt := clock ?w 0,
      AttemptCount := AttemptCount task, LastError := Error e, ScheduledAt := ?at, WorkerID := []\<rparr>"
  have m: "?m (clock ?w 0) t = Inr ?t" using assms(4) by (simp add: retry_Inr_iff)
  have "AttemptCount (persisted t ?t) = AttemptCount task" "RetryLimit (persisted t ?t) = RetryLimit t"
    "ScheduledAt (persisted t ?t) = timestamptz ?at"
    using stored_counts_fit(2) [OF assms(3)] assms(5) by (simp_all add: persisted_def int32_round_trip)
  moreover have "no_faults ?w" "key ?w (ID task) = Some k" "view ?w k = Some t" using assms(1-3) by simp_all
  from update_total_view [where m = ?m, OF this m] obtain w1 where w1: "UpdateTask (ID task) ?m ?w = (Inr ?t, w1)"
    "view w1 = (view w)(k \<mapsto> persisted t ?t)" "rdb w1 = rdb w" by auto
  moreover have "markRetry (worker_execute cfg reg rc) task e m w = w1\<lparr>rdb := xack rc m (rdb w)\<rparr>"
    using w1 by (simp add: markRetry_def ack_def Ack_world SystemClock_Now_def)
  ultimately show ?thesis
    by (intro exI [of _ "persisted t ?t"] exI [of _ "clock w 0"]) (simp add: persisted_identity)
qed

subsection \<open>Waiting for the handler\<close>

lemma beat_total:
  assumes "no_faults w" "pg_inv w" "key w tid = Some k" "view w k = Some t"
    and w': "w' = snd (Heartbeat tid wid w)"
  shows "no_faults w' \<and> pg_inv w' \<and> key w' = key w \<and> lib w' = lib w \<and> rdb w' = rdb w \<and>
     (\<exists>t1. beaten t t1 \<and> view w' = (view w)(k \<mapsto> t1))"
proof -
  from Heartbeat_total [OF assms(1,3), of wid] obtain r d
    where h: "Heartbeat tid wid w = (r, w\<lparr>clock := shift (clock w), db := d\<rparr>)" by blast
  then have w2: "w' = w\<lparr>clock := shift (clock w), db := d\<rparr>" by (simp add: w')
  from pg_heartbeat [OF h assms(2)] w2 have inv: "pg_inv w'" "key w' = key w" and
    v: "view w' = view w \<or> (\<exists>k' t' at. key w tid = Some k' \<and> view w k' = Some t' \<and> Status t' = StatusRunning \<and>
            view w' = (view w)(k' \<mapsto> t'\<lparr>UpdatedAt := at, WorkerID := wid\<rparr>))"
    by simp_all
  have "view w = (view w)(k \<mapsto> t)" using assms(4) by (simp add: fun_upd_idem)
  then have "\<exists>t1. beaten t t1 \<and> view w' = (view w)(k \<mapsto> t1)"
    using v assms(3,4) beaten_refl beaten_upd [OF beaten_refl] by (metis option.inject)
  with inv w2 assms(1) show ?thesis by simp
qed

lemma await_total:
  assumes "no_faults w" "pg_inv w" "key w (ID task) = Some k" "view w k = Some t"
  shows "\<exists>w1 t1. await (worker_execute cfg reg rc) task r (replicate n HbTicker @ HandlerReturned # es) w = (Some r, w1) \<and>
     no_faults w1 \<and> pg_inv w1 \<and> key w1 = key w \<and> rdb w1 = rdb w \<and> beaten t t1 \<and> view w1 = (view w)(k \<mapsto> t1)"
  using assms
proof (induction n arbitrary: w t)
  case 0
  then show ?case by (auto simp: fun_upd_idem intro!: exI [of _ t])
next
  case (Suc n)
  let ?w = "snd (Heartbeat (ID task) (cw_WorkerID cfg) w)"
  from beat_total [OF Suc.prems refl, of "cw_WorkerID cfg"] obtain t1
    where b: "no_faults ?w" "pg_inv ?w" "key ?w = key w" "rdb ?w = rdb w" "beaten t t1" "view ?w = (view w)(k \<mapsto> t1)"
    by blast
  from Suc.IH [of ?w t1] b Suc.prems(3) show ?case by (fastforce simp: beaten_def)
qed

subsection \<open>A delivery from start to end\<close>

text \<open>The way to the label \<^verbatim>\<open>done\<close> for a task that is running and has a handler.\<close>

lemma process_total:
  assumes "pg_inv w" "no_faults w" "key w (d_TaskID d) = Some k" "view w k = Some t"
    and "Status t = StatusRunning" "handlers reg (Type t) = Some h"
  shows "\<exists>w1 t1. process (worker_execute cfg reg rc) d call (replicate n HbTicker @ HandlerReturned # es) w =
       (True, settle (worker_execute cfg reg rc) t (clock w 0) (d_ID d) (h call (Payload t)) w1) \<and>
     no_faults w1 \<and> key w1 (ID t) = Some k \<and> rdb w1 = rdb w \<and> beaten t t1 \<and>
     view w1 = (view w)(k \<mapsto> t1)"
proof -
  let ?w = "w\<lparr>clock := shift (clock w)\<rparr>"
  have g: "GetByID (d_TaskID d) ?w = (Inr t, ?w)" using assms(2-4) by (intro GetByID_total) simp_all
  have k: "key ?w (ID t) = Some k" using pg_get [OF g] assms(1,3) by simp
  have pre: "no_faults ?w" "pg_inv ?w" "view ?w k = Some t" using assms(1,2,4) by simp_all
  from await_total [OF pre(1,2) k pre(3), of cfg reg rc "h call (Payload t)" n es]
  obtain w1 t1 where a: "await (worker_execute cfg reg rc) t (h call (Payload t))
      (replicate n HbTicker @ HandlerReturned # es) ?w = (Some (h call (Payload t)), w1)"
    "no_faults w1" "key w1 = key ?w" "rdb w1 = rdb w" "beaten t t1" "view w1 = (view w)(k \<mapsto> t1)"
    by auto
  have "Registry_Get (lib ?w) (Type t) reg = Inr h" using assms(6) by (simp add: Registry_Get_Inr_iff)
  then have "process (worker_execute cfg reg rc) d call (replicate n HbTicker @ HandlerReturned # es) w =
       (True, settle (worker_execute cfg reg rc) t (clock w 0) (d_ID d) (h call (Payload t)) w1)"
    using g a(1) assms(5) by (simp add: process_def SystemClock_Now_def)
  with a k show ?thesis by auto
qed

lemma process_completes:
  assumes "pg_inv w" "no_faults w" "key w (d_TaskID d) = Some k" "view w k = Some t"
    and "Status t = StatusRunning" "handlers reg (Type t) = Some h" "er_err (h call (Payload t)) = None"
  shows "\<exists>w' t'. process (worker_execute cfg reg rc) d call (replicate n HbTicker @ HandlerReturned # es) w =
       (True, w') \<and> view w' = (view w)(k \<mapsto> t') \<and> same_identity t t' \<and> Status t' = StatusCompleted \<and>
     Result t' = er_result (h call (Payload t)) \<and> WorkerID t' = cw_WorkerID cfg \<and>
     rdb w' = xack rc (d_ID d) (rdb w)"
proof -
  let ?u = "worker_execute cfg reg rc"
  from process_total [OF assms(1-6), of cfg rc call n es] obtain w1 t1
    where p: "process ?u d call (replicate n HbTicker @ HandlerReturned # es) w =
       (True, settle ?u t (clock w 0) (d_ID d) (h call (Payload t)) w1)"
      and w1: "no_faults w1" "key w1 (ID t) = Some k" "rdb w1 = rdb w" "beaten t t1" "view w1 = (view w)(k \<mapsto> t1)"
    by blast
  define w2 where "w2 = prom_upd (TaskCompleted (time_Sub (clock w1 0) (clock w 0))) (w1\<lparr>clock := shift (clock w1)\<rparr>)"
  have s: "settle ?u t (clock w 0) (d_ID d) (h call (Payload t)) w1 =
      markCompleted ?u t (er_result (h call (Payload t))) (d_ID d) w2"
    using assms(7) by (simp add: settle_def SystemClock_Now_def w2_def)
  have w2: "no_faults w2" "key w2 (ID t) = Some k" "view w2 k = Some t1" "rdb w2 = rdb w" "view w2 = (view w)(k \<mapsto> t1)"
    using w1 by (simp_all add: w2_def)
  have t1: "Status t1 = StatusRunning" "same_identity t t1" using beaten_fields [OF w1(4)] assms(5) by simp_all
  from markCompleted_total [OF w2(1-3) t1(1), of cfg reg rc "er_result (h call (Payload t))" "d_ID d"] s p w2
    same_identity_trans [OF t1(2)]
  show ?thesis by (metis fun_upd_upd)
qed

text \<open>
  C9. A handler that succeeds completes its task: with a driver that does not fail, a delivery
  for a running task whose handler returns without an error, after any number of heartbeats,
  leaves the task stored as completed with the handler's result and the worker's name, the
  message acknowledged, and no other task changed.
\<close>

theorem worker_completes:
  assumes "pg_inv w" "no_faults w" "key w (d_TaskID d) = Some k" "view w k = Some t"
    and "Status t = StatusRunning" "handlers reg (Type t) = Some h" "er_err (h call (Payload t)) = None"
  shows "\<exists>w' t'. process (worker_execute cfg reg rc) d call (replicate n HbTicker @ HandlerReturned # es) w =
       (True, w') \<and> view w' = (view w)(k \<mapsto> t') \<and> same_identity t t' \<and> Status t' = StatusCompleted \<and>
     Result t' = er_result (h call (Payload t)) \<and> WorkerID t' = cw_WorkerID cfg \<and>
     rdb w' = xack rc (d_ID d) (rdb w)"
  by (rule process_completes [OF assms])

lemma process_retries:
  assumes "pg_inv w" "no_faults w" "key w (d_TaskID d) = Some k" "view w k = Some t"
    and "Status t = StatusRunning" "handlers reg (Type t) = Some h" "er_err (h call (Payload t)) = Some e"
    and "sint (AttemptCount t) + 1 < sint (RetryLimit t)" "\<not> errors_Is e ContextCanceled"
  shows "\<exists>w' t' at. process (worker_execute cfg reg rc) d call (replicate n HbTicker @ HandlerReturned # es) w =
       (True, w') \<and> view w' = (view w)(k \<mapsto> t') \<and> same_identity t t' \<and> Status t' = StatusPending \<and>
     sint (AttemptCount t') = sint (AttemptCount t) + 1 \<and> RetryLimit t' = RetryLimit t \<and>
     LastError t' = Error e \<and> WorkerID t' = [] \<and>
     ScheduledAt t' = timestamptz (time_Add at (Delay DefaultBackoff (AttemptCount t'))) \<and>
     rdb w' = xack rc (d_ID d) (rdb w)"
proof -
  let ?u = "worker_execute cfg reg rc" and ?t = "IncrementAttempt t"
  from process_total [OF assms(1-6), of cfg rc call n es] obtain w1 t1
    where p: "process ?u d call (replicate n HbTicker @ HandlerReturned # es) w =
       (True, settle ?u t (clock w 0) (d_ID d) (h call (Payload t)) w1)"
      and w1: "no_faults w1" "key w1 (ID t) = Some k" "rdb w1 = rdb w" "beaten t t1" "view w1 = (view w)(k \<mapsto> t1)"
    by blast
  define w2 where "w2 = prom_upd TaskRetried w1"
  have inc: "sint (AttemptCount t + 1) = sint (AttemptCount t) + 1" "fits_int32 (AttemptCount t + 1)"
    using increment_fits [OF stored_counts_fit(1) [OF assms(4)]] stored_counts_fit [OF assms(4)] assms(8)
    by (simp_all add: fits_int32_def)
  have s: "settle ?u t (clock w 0) (d_ID d) (h call (Payload t)) w1 = markRetry ?u ?t e (d_ID d) w2"
    using assms(7-9) inc by (simp add: settle_def CanRetry_def IncrementAttempt_def w2_def Let_def)
  have w2: "no_faults w2" "key w2 (ID ?t) = Some k" "view w2 k = Some t1" "rdb w2 = rdb w" "view w2 = (view w)(k \<mapsto> t1)"
    using w1 by (simp_all add: w2_def IncrementAttempt_def)
  have t1: "Status t1 = StatusRunning" "same_identity t t1" "RetryLimit t1 = RetryLimit t"
    using beaten_fields [OF w1(4)] assms(5) by simp_all
  from markRetry_total [OF w2(1-3) t1(1) _, of cfg reg rc e "d_ID d"] inc
  obtain t' at where m: "view (markRetry ?u ?t e (d_ID d) w2) = (view w)(k \<mapsto> t')" "same_identity t1 t'"
    "Status t' = StatusPending" "AttemptCount t' = AttemptCount t + 1" "RetryLimit t' = RetryLimit t"
    "LastError t' = Error e" "WorkerID t' = []"
    "ScheduledAt t' = timestamptz (time_Add at (Delay DefaultBackoff (AttemptCount t')))"
    "rdb (markRetry ?u ?t e (d_ID d) w2) = xack rc (d_ID d) (rdb w)"
    using w2 t1(3) by (auto simp: IncrementAttempt_def)
  show ?thesis
    using m s p inc(1) same_identity_trans [OF t1(2) m(2)]
    by (intro exI [of _ "markRetry ?u ?t e (d_ID d) w2"] exI [of _ t'] exI [of _ at]) simp
qed

text \<open>
  C10. A handler that fails is tried again while attempts remain: with a driver that does not
  fail, a delivery for a running task whose handler returns an error that is not a
  \<^verbatim>\<open>context.Canceled\<close>, after any number of heartbeats, puts the task back to pending with its
  attempt counted, the error recorded, no worker, and its next run due after the default backoff
  of that attempt; the message is acknowledged.
\<close>

theorem worker_retries:
  assumes "pg_inv w" "no_faults w" "key w (d_TaskID d) = Some k" "view w k = Some t"
    and "Status t = StatusRunning" "handlers reg (Type t) = Some h" "er_err (h call (Payload t)) = Some e"
    and "sint (AttemptCount t) + 1 < sint (RetryLimit t)" "\<not> errors_Is e ContextCanceled"
  shows "\<exists>w' t' at. process (worker_execute cfg reg rc) d call (replicate n HbTicker @ HandlerReturned # es) w =
       (True, w') \<and> view w' = (view w)(k \<mapsto> t') \<and> same_identity t t' \<and> Status t' = StatusPending \<and>
     sint (AttemptCount t') = sint (AttemptCount t) + 1 \<and> RetryLimit t' = RetryLimit t \<and>
     LastError t' = Error e \<and> WorkerID t' = [] \<and>
     ScheduledAt t' = timestamptz (time_Add at (Delay DefaultBackoff (AttemptCount t'))) \<and>
     rdb w' = xack rc (d_ID d) (rdb w)"
  by (rule process_retries [OF assms])

lemma process_fails:
  assumes "pg_inv w" "no_faults w" "key w (d_TaskID d) = Some k" "view w k = Some t"
    and "Status t = StatusRunning" "handlers reg (Type t) = Some h" "er_err (h call (Payload t)) = Some e"
    and "sint (RetryLimit t) \<le> sint (AttemptCount t) + 1 \<or> errors_Is e ContextCanceled"
  shows "\<exists>w' t'. process (worker_execute cfg reg rc) d call (replicate n HbTicker @ HandlerReturned # es) w =
       (True, w') \<and> view w' = (view w)(k \<mapsto> t') \<and> same_identity t t' \<and> Status t' = StatusFailed \<and>
     LastError t' = Error e \<and> WorkerID t' = [] \<and> AttemptCount t' = AttemptCount t \<and>
     rdb w' = xack rc (d_ID d) (xadd_dlq rc (ID t) (rdb w))"
proof -
  let ?u = "worker_execute cfg reg rc" and ?t = "IncrementAttempt t"
  from process_total [OF assms(1-6), of cfg rc call n es] obtain w1 t1
    where p: "process ?u d call (replicate n HbTicker @ HandlerReturned # es) w =
       (True, settle ?u t (clock w 0) (d_ID d) (h call (Payload t)) w1)"
      and w1: "no_faults w1" "key w1 (ID t) = Some k" "rdb w1 = rdb w" "beaten t t1" "view w1 = (view w)(k \<mapsto> t1)"
    by blast
  define w2 where "w2 = prom_upd TaskFailed w1"
  have "\<not> (CanRetry ?t \<and> \<not> errors_Is e ContextCanceled)"
    using increment_fits [OF stored_counts_fit(1) [OF assms(4)]] assms(8)
    by (auto simp: CanRetry_def IncrementAttempt_def)
  then have s: "settle ?u t (clock w 0) (d_ID d) (h call (Payload t)) w1 = markFailed ?u ?t (Error e) (d_ID d) w2"
    using assms(7) by (auto simp: settle_def w2_def Let_def)
  have w2: "no_faults w2" "key w2 (ID ?t) = Some k" "view w2 k = Some t1" "rdb w2 = rdb w" "view w2 = (view w)(k \<mapsto> t1)"
    "ID ?t = ID t"
    using w1 by (simp_all add: w2_def IncrementAttempt_def)
  have t1: "Status t1 = StatusRunning" "same_identity t t1" "AttemptCount t1 = AttemptCount t"
    using beaten_fields [OF w1(4)] assms(5) by simp_all
  from markFailed_total [OF w2(1-3) t1(1), of cfg reg rc "Error e" "d_ID d"] s p w2 t1(3)
    same_identity_trans [OF t1(2)]
  show ?thesis by (metis fun_upd_upd)
qed

text \<open>
  The worker's context ends while the handler runs. From then on the driver refuses every call:
  the update after the label \<^verbatim>\<open>done\<close> is not stored, and nothing is published or acknowledged.
\<close>

lemma UpdateTask_unreachable:
  assumes "faults w 0 \<noteq> None"
  shows "\<exists>e w'. UpdateTask tid m w = (Inl e, w') \<and> db w' = db w \<and> lib w' = lib w \<and> rdb w' = rdb w"
  using assms
  by (cases "uuid_Parse (lib w) tid")
    (auto simp: UpdateTask_def toUUID_def with_lib_def tx_Begin_def driver_def onError_def op_defs split: option.splits)

lemma settle_refused:
  assumes "faults w 0 \<noteq> None" "w' = settle (worker_execute cfg reg rc) t start m res w"
  shows "db w' = db w \<and> lib w' = lib w \<and> rdb w' = rdb w"
proof (cases "er_err res")
  case None
  let ?w = "prom_upd (TaskCompleted (time_Sub (clock w 0) start)) (w\<lparr>clock := shift (clock w)\<rparr>)"
  have "faults ?w 0 \<noteq> None" using assms(1) by (simp add: prom_upd_def)
  from UpdateTask_unreachable [OF this, of "ID t" "completed_mutation (er_result res) (cw_WorkerID cfg)"] None assms(2)
  show ?thesis by (auto simp: settle_def markCompleted_def SystemClock_Now_def prom_upd_def)
next
  case (Some e)
  let ?r = "prom_upd TaskRetried w" and ?f = "prom_upd TaskFailed w"
  have "faults (?r\<lparr>clock := shift (clock w)\<rparr>) 0 \<noteq> None" "faults ?f 0 \<noteq> None"
    using assms(1) by (simp_all add: prom_upd_def)
  note refused = this [THEN UpdateTask_unreachable]
  show ?thesis
  proof (cases "CanRetry (IncrementAttempt t) \<and> \<not> errors_Is e ContextCanceled")
    case True
    with Some assms(2) have "w' = markRetry (worker_execute cfg reg rc) (IncrementAttempt t) e m ?r"
      by (simp add: settle_def Let_def)
    then show ?thesis using refused(1) [of "ID (IncrementAttempt t)" "retry_mutation (AttemptCount (IncrementAttempt t)) (Error e)
          (time_Add (clock w 0) (Delay DefaultBackoff (AttemptCount (IncrementAttempt t))))"]
      by (auto simp: markRetry_def SystemClock_Now_def prom_upd_def)
  next
    case False
    with Some assms(2) have "w' = markFailed (worker_execute cfg reg rc) (IncrementAttempt t) (Error e) m ?f"
      by (auto simp: settle_def Let_def)
    then show ?thesis using refused(2) [of "ID (IncrementAttempt t)" "failed_mutation (Error e)"]
      by (auto simp: markFailed_def prom_upd_def)
  qed
qed

lemma keeps_rdb_repo: "keeps rdb (GetByID tid)" "keeps rdb (Heartbeat tid wid)"
  unfolding GetByID_def Heartbeat_def by (intro keeps_rules; simp)+

lemma await_append:
  "await u task r (replicate n HbTicker) w = (None, w3) \<Longrightarrow>
     await u task r (replicate n HbTicker @ es) w = await u task r es w3"
  by (induction n arbitrary: w) auto

lemma await_rdb: "await (worker_execute cfg reg rc) task r (replicate n HbTicker) w = (o', w') \<Longrightarrow> rdb w' = rdb w"
proof (induction n arbitrary: w)
  case (Suc n)
  obtain rh w1 where h: "Heartbeat (ID task) (cw_WorkerID cfg) w = (rh, w1)" by fastforce
  have "rdb w1 = rdb w" using keeps_rdb_repo(2) h by (rule keepsD)
  with Suc h show ?case by simp
qed simp

lemma process_abandoned:
  assumes "pg_inv v" "key v (d_TaskID d) = Some k" "view v k = Some t" "Status t = StatusRunning"
    and "handlers reg (Type t) = Some h" "x \<noteq> HbTicker"
    and g: "GetByID (d_TaskID d) (v\<lparr>clock := shift (clock v)\<rparr>) = (Inr t, w2)"
    and a: "await (worker_execute cfg reg rc) t (h call (Payload t)) (replicate n HbTicker) w2 = (None, w3)"
    and refused: "faults w3 0 \<noteq> None"
  shows "\<exists>w' t'. process (worker_execute cfg reg rc) d call (replicate n HbTicker @ x # es) v = (True, w') \<and>
     view w' = (view v)(k \<mapsto> t') \<and> same_identity t t' \<and> Status t' = StatusRunning \<and> rdb w' = rdb v"
proof -
  let ?u = "worker_execute cfg reg rc" and ?v = "v\<lparr>clock := shift (clock v)\<rparr>"
  have inv: "pg_inv ?v" using assms(1) by simp
  have w2: "pg_inv w2" "key w2 = key v" "view w2 = view v" "lib w2 = lib v" "rdb w2 = rdb v"
    using pg.get_frame [of "d_TaskID d" ?v _ w2] g inv
    by (auto dest: keepsD [OF keeps_lib_repo(2)] keepsD [OF keeps_rdb_repo(1)])
  have k: "key w2 (ID t) = Some k" using pg_get [OF g inv] assms(2,3) w2(2) by simp
  have "rests_on pg_inv key view {k} w2 w3"
    using prod.await_ok [OF w2(1) k] a by (simp add: worker_execute_def)
  then have rests: "rests (view v) (view w3)" and other: "\<And>k'. k' \<noteq> k \<Longrightarrow> view w3 k' = view v k'"
    by (simp_all add: rests_on_def w2(3))
  from rests_Some [OF rests assms(3)] obtain t' where t': "view w3 k = Some t'" "same_identity t t'" "Status t' = StatusRunning"
    using assms(4) by auto
  have w3: "rdb w3 = rdb v" using await_rdb [OF a] w2(5) by simp
  obtain res where x: "await ?u t (h call (Payload t)) (x # es) w3 = (Some res, w3)" using assms(6) by (cases x) simp_all
  define w' where "w' = settle ?u t (clock v 0) (d_ID d) res w3"
  from settle_refused [OF refused w'_def] have w': "view w' = view w3" "rdb w' = rdb v"
    using pg_frame [of w' w3] w3 by simp_all
  have "Registry_Get (lib w2) (Type t) reg = Inr h" using assms(5) by (simp add: Registry_Get_Inr_iff)
  then have "process ?u d call (replicate n HbTicker @ x # es) v = (True, w')"
    using g x assms(4) await_append [OF a, of "x # es"] by (simp add: process_def SystemClock_Now_def w'_def)
  moreover have "view w' = (view v)(k \<mapsto> t')" unfolding w'(1) using other t'(1) by (auto simp: fun_eq_iff)
  ultimately show ?thesis using t' w'(2) by blast
qed

text \<open>
  C11. A handler that fails for the last time fails its task: with a driver that does not fail, a
  delivery for a running task whose handler returns an error, after any number of heartbeats,
  where no attempt is left or the error is the handler's own \<^verbatim>\<open>context.Canceled\<close>, leaves the task
  stored as failed with the error, published to the dead-letter stream and acknowledged. The
  stored attempt counter is the one from before this attempt: \<^verbatim>\<open>markFailed\<close> does not write the
  increment back. It is not so when the worker's own context ends while the handler runs, and the
  driver refuses the calls made after that: however the wait then ends, by the handler's return or
  by the \<^verbatim>\<open>ctx.Done\<close> branch, the task stays running, unpublished and unacknowledged.
\<close>

theorem worker_fails:
  assumes "pg_inv w" "no_faults w" "key w (d_TaskID d) = Some k" "view w k = Some t"
    and "Status t = StatusRunning" "handlers reg (Type t) = Some h" "er_err (h call (Payload t)) = Some e"
    and "sint (RetryLimit t) \<le> sint (AttemptCount t) + 1 \<or> errors_Is e ContextCanceled"
  shows "(\<exists>w' t'. process (worker_execute cfg reg rc) d call (replicate n HbTicker @ HandlerReturned # es) w =
       (True, w') \<and> view w' = (view w)(k \<mapsto> t') \<and> same_identity t t' \<and> Status t' = StatusFailed \<and>
     LastError t' = Error e \<and> WorkerID t' = [] \<and> AttemptCount t' = AttemptCount t \<and>
     rdb w' = xack rc (d_ID d) (xadd_dlq rc (ID t) (rdb w))) \<and>
   (\<forall>v w2 w3 x. db v = db w \<and> lib v = lib w \<and> x \<noteq> HbTicker \<and>
     GetByID (d_TaskID d) (v\<lparr>clock := shift (clock v)\<rparr>) = (Inr t, w2) \<and>
     await (worker_execute cfg reg rc) t (h call (Payload t)) (replicate n HbTicker) w2 = (None, w3) \<and>
     faults w3 0 \<noteq> None \<longrightarrow>
     (\<exists>w' t'. process (worker_execute cfg reg rc) d call (replicate n HbTicker @ x # es) v = (True, w') \<and>
        view w' = (view v)(k \<mapsto> t') \<and> same_identity t t' \<and> Status t' = StatusRunning \<and> rdb w' = rdb v))"
proof (intro conjI allI impI process_fails [OF assms])
  fix v w2 w3 x
  assume v: "db v = db w \<and> lib v = lib w \<and> x \<noteq> HbTicker \<and>
     GetByID (d_TaskID d) (v\<lparr>clock := shift (clock v)\<rparr>) = (Inr t, w2) \<and>
     await (worker_execute cfg reg rc) t (h call (Payload t)) (replicate n HbTicker) w2 = (None, w3) \<and>
     faults w3 0 \<noteq> None"
  then have g: "GetByID (d_TaskID d) (v\<lparr>clock := shift (clock v)\<rparr>) = (Inr t, w2)"
    and a: "await (worker_execute cfg reg rc) t (h call (Payload t)) (replicate n HbTicker) w2 = (None, w3)"
    and f: "faults w3 0 \<noteq> None" and x: "x \<noteq> HbTicker" by blast+
  have "pg_inv v" "key v (d_TaskID d) = Some k" "view v k = Some t"
    using pg_frame [of v w] v assms(1,3,4) by simp_all
  then show "\<exists>w' t'. process (worker_execute cfg reg rc) d call (replicate n HbTicker @ x # es) v = (True, w') \<and>
        view w' = (view v)(k \<mapsto> t') \<and> same_identity t t' \<and> Status t' = StatusRunning \<and> rdb w' = rdb v"
    by (rule process_abandoned [OF _ _ _ assms(5,6) x g a f])
qed

text \<open>
  A delivery for a task that is already completed or cancelled runs nothing: the message is
  acknowledged and the tables stay as they are.
\<close>

lemma worker_skips_done:
  assumes "no_faults w" "key w (d_TaskID d) = Some k" "view w k = Some t" "terminal (Status t)"
  shows "\<exists>w'. process (worker_execute cfg reg rc) d call es w = (True, w') \<and> db w' = db w \<and>
     prom w' = prom w \<and> rdb w' = xack rc (d_ID d) (rdb w)"
proof -
  let ?w = "w\<lparr>clock := shift (clock w)\<rparr>"
  have "GetByID (d_TaskID d) ?w = (Inr t, ?w)" using assms(1-3) by (intro GetByID_total) simp_all
  then show ?thesis
    using assms(4) by (auto simp: process_def SystemClock_Now_def terminal_def ack_def Ack_world)
qed

end
