(* ===== verification/Requests.thy ===== *)
theory Requests
  imports Outcomes
begin

text \<open>
  The requests of the API gateway and the scheduler's tick on the production wiring: what a
  successful request stores, that a refused one stores nothing, and that an acceptable one is
  accepted.
\<close>

subsection \<open>Enqueueing\<close>

text \<open>
  C21. A successful enqueue without an idempotency key stores one new task: pending, with the
  command's type, payload, priority, retry limit and dependencies, no attempt and no result,
  under a key no task had; every other task is as before. The command was valid.
\<close>

theorem enqueue_stores:
  assumes "pg_inv w" "Enqueue_Handle gateway_enqueue cmd w = (Inr tid, w')" "c_IdempotencyKey cmd = []"
  shows "valid_cmd cmd \<and>
     (\<exists>k t'. key w tid = Some k \<and> view w k = None \<and> view w' = (view w)(k \<mapsto> t') \<and>
        Status t' = StatusPending \<and> Type t' = c_Type cmd \<and> Payload t' = c_Payload cmd \<and>
        Priority t' = c_Priority cmd \<and> AttemptCount t' = 0 \<and> Result t' = None \<and> WorkerID t' = [] \<and>
        (fits_int32 (c_RetryLimit cmd) \<longrightarrow> RetryLimit t' = c_RetryLimit cmd) \<and>
        map (key w) (Dependencies t') = map (key w) (c_Dependencies cmd))"
  using assms(1,2) unfolding gateway_enqueue_def
proof (cases rule: prod.Enqueue_cases)
  case (created tid' k t' at)
  then show ?thesis by (auto simp: created_as_def new_task_def fits_int32_def)
qed (use assms(3) in auto)

lemma invalid_refused:
  assumes "Enqueue_Handle gateway_enqueue cmd w = (r, w')" "\<not> valid_cmd cmd"
  shows "view w' = view w \<and>
     (\<exists>e. r = Inl e \<and> (errors_Is e ErrInvalidArgument \<or> errors_Is e ErrInvalidPriority))"
proof -
  from assms(2) obtain e where e: "Validate cmd = Some e" using Validate_None_iff by fastforce
  with assms(1) have "r = Inl e" "w' = w\<lparr>clock := shift (clock w)\<rparr>"
    by (simp_all add: Enqueue_Handle_def gateway_enqueue_def SystemClock_Now_def)
  then show ?thesis using Validate_error [OF e] pg_frame [of w' w] by simp
qed

text \<open>Without an unconfirmed call an enqueue that returns an error has left the tables alone.\<close>

lemma gateway_ports:
  "eu_repo gateway_enqueue = postgres_Repo" "eu_ids gateway_enqueue = UUIDv7Gen_New"
  "eu_clock gateway_enqueue = SystemClock_Now" "eu_metrics gateway_enqueue = prom_Metrics"
  by (simp_all add: gateway_enqueue_def)

lemma find_unconfirmed:
  "FindByIdempotencyKey ik w = (r, w1) \<Longrightarrow> faults w1 n = Some f \<Longrightarrow> \<exists>m. faults w m = Some f"
  by (auto simp: FindByIdempotencyKey_def scanTask_def andThen_iff onError_iff driver_def with_lib_def ret_def
      fail_def shift_def split: option.splits)

lemma enqueue_rolls_back: "rolls_back (Enqueue_Handle gateway_enqueue cmd)"
  unfolding rolls_back_def
proof (intro allI impI)
  fix w e w'
  assume h: "Enqueue_Handle gateway_enqueue cmd w = (Inl e, w')"
    and c: "\<forall>n err. faults w n \<noteq> Some (Unconfirmed err)"
  let ?w1 = "w\<lparr>clock := shift (clock w)\<rparr>"
  have "eu_clock gateway_enqueue w = (clock w 0, ?w1)" "lib ?w1 = lib w"
    by (simp_all add: gateway_ports SystemClock_Now_def)
  with h show "db w' = db w"
  proof (cases rule: Enqueue_Handle_paths)
    case (lookup_failed e')
    then show ?thesis by (auto simp: gateway_ports dest!: keepsD [OF keeps_FindByIdempotencyKey [OF keeps_driver(1)]])
  next
    case (register w2)
    have w2: "db w2 = db w" "faults w2 n \<noteq> Some (Unconfirmed err)" for n err
      using register(3) c by (auto simp: gateway_ports dest: keepsD [OF keeps_FindByIdempotencyKey [OF keeps_driver(1)]] find_unconfirmed)
    let ?w3 = "w2\<lparr>clock := shift (clock w2), new_ids := shift (new_ids w2)\<rparr>"
    let ?t = "new_task cmd (clock w2 0) (uuid_String (lib w2) (new_ids w2 0))"
    from register(4) obtain e3 where "Create ?t ?w3 = (Inl e3, w')"
      by (auto simp: register_def gateway_ports SystemClock_Now_def UUIDv7Gen_New_def Let_def split: prod.splits sum.splits)
    with all_or_nothing_atomic [OF repo_all_or_nothing(1)] w2 show ?thesis
      by (fastforce simp: atomic_def rolls_back_def)
  qed simp_all
qed

text \<open>
  C22. A refused enqueue stores nothing and a failed one stores nothing or the whole task: whenever
  \<^verbatim>\<open>Handle\<close> returns an error the tasks are as before, or the server carried out a call of which
  the client got an error, and then the one task that was added is the command's, pending, with all
  its dependencies. A command that is not valid is always refused, with an error that is
  \<^verbatim>\<open>ErrInvalidArgument\<close> or \<^verbatim>\<open>ErrInvalidPriority\<close>, and stores nothing.
\<close>

theorem enqueue_refuses:
  assumes "pg_inv w" "Enqueue_Handle gateway_enqueue cmd w = (r, w')"
  shows "(isl r \<longrightarrow> view w' = view w \<or>
        valid_cmd cmd \<and> (\<exists>n err. faults w n = Some (Unconfirmed err)) \<and>
        (\<exists>tid k t' at. key w tid = Some k \<and> view w k = None \<and> created_as (new_task cmd at tid) t' \<and>
           map (key w) (Dependencies t') = map (key w) (c_Dependencies cmd) \<and> view w' = (view w)(k \<mapsto> t'))) \<and>
     (\<not> valid_cmd cmd \<longrightarrow> view w' = view w \<and>
        (\<exists>e. r = Inl e \<and> (errors_Is e ErrInvalidArgument \<or> errors_Is e ErrInvalidPriority)))"
proof (intro conjI impI)
  show "\<not> valid_cmd cmd \<Longrightarrow> view w' = view w"
    "\<not> valid_cmd cmd \<Longrightarrow> \<exists>e. r = Inl e \<and> (errors_Is e ErrInvalidArgument \<or> errors_Is e ErrInvalidPriority)"
    using assms(2) by (auto dest: invalid_refused)
  show "view w' = view w \<or>
        valid_cmd cmd \<and> (\<exists>n err. faults w n = Some (Unconfirmed err)) \<and>
        (\<exists>tid k t' at. key w tid = Some k \<and> view w k = None \<and> created_as (new_task cmd at tid) t' \<and>
           map (key w) (Dependencies t') = map (key w) (c_Dependencies cmd) \<and> view w' = (view w)(k \<mapsto> t'))"
    if "isl r"
    using assms(1) assms(2) [unfolded gateway_enqueue_def]
  proof (cases rule: prod.Enqueue_cases)
    case (unconfirmed tid k t' at)
    have "\<exists>n err. faults w n = Some (Unconfirmed err)"
    proof (rule ccontr)
      assume "\<nexists>n err. faults w n = Some (Unconfirmed err)"
      with enqueue_rolls_back assms(2) \<open>isl r\<close> have "db w' = db w"
        by (fastforce simp: rolls_back_def isl_def)
      moreover have "view w' k \<noteq> None" using unconfirmed by simp
      ultimately show False using unconfirmed(5) by (simp add: view_def view_db_def)
    qed
    with unconfirmed show ?thesis by blast
  qed (use \<open>isl r\<close> in \<open>auto simp: same_view_def\<close>)
qed

text \<open>The registration of a command whose key is free and whose dependencies are stored.\<close>

lemma register_accepts:
  assumes "pg_inv w" "no_faults w" "valid_cmd cmd" "view w (new_ids w 0) = None"
    and "c_IdempotencyKey cmd = [] \<or>
      (\<forall>r \<in> set (tasks (db w)). r_idempotency_key r \<noteq> Some (c_IdempotencyKey cmd))"
    and "map (key w) (c_Dependencies cmd) = map Some vs" "distinct vs" "\<forall>v \<in> set vs. view w v \<noteq> None"
  shows "\<exists>w'. register gateway_enqueue cmd start (w\<lparr>clock := shift (clock w)\<rparr>) =
     (Inr (uuid_String (lib w) (new_ids w 0)), w')"
proof -
  let ?tid = "uuid_String (lib w) (new_ids w 0)"
  let ?w2 = "w\<lparr>clock := shift (shift (clock w)), new_ids := shift (new_ids w)\<rparr>"
  let ?t = "new_task cmd (shift (clock w) 0) ?tid"
  have same: "key ?w2 = key w" "view ?w2 = view w" "no_faults ?w2"
    using pg_frame [of ?w2 w] assms(2) by simp_all
  have "\<exists>d. Create ?t ?w2 = (Inr (), ?w2\<lparr>db := d\<rparr>)"
  proof (rule Create_total [where vs = vs and u = "new_ids w 0"])
    show "key ?w2 (ID ?t) = Some (new_ids w 0)"
      using assms(1) by (simp add: same new_task_def key_def pg_inv_def uuid_ok_def)
  qed (use assms same in \<open>auto simp: new_task_def pg_inv_def valid_cmd_def\<close>)
  then obtain d where "Create ?t ?w2 = (Inr (), ?w2\<lparr>db := d\<rparr>)" by blast
  then show ?thesis
    by (simp add: register_def gateway_enqueue_def SystemClock_Now_def UUIDv7Gen_New_def Let_def new_task_def)
qed

text \<open>
  C23. An acceptable command is accepted: with a driver that does not fail, a valid command whose
  dependencies are different stored tasks and whose idempotency key is empty or unused is
  registered under the next generated identifier, when that one is fresh.
\<close>

theorem enqueue_accepts:
  assumes "pg_inv w" "no_faults w" "valid_cmd cmd" "view w (new_ids w 0) = None"
    and "c_IdempotencyKey cmd = [] \<or>
      (\<forall>r \<in> set (tasks (db w)). r_idempotency_key r \<noteq> Some (c_IdempotencyKey cmd))"
    and "map (key w) (c_Dependencies cmd) = map Some vs" "distinct vs" "\<forall>v \<in> set vs. view w v \<noteq> None"
  shows "\<exists>w'. Enqueue_Handle gateway_enqueue cmd w = (Inr (uuid_String (lib w) (new_ids w 0)), w') \<and>
     view w' (new_ids w 0) \<noteq> None"
proof -
  let ?tid = "uuid_String (lib w) (new_ids w 0)" and ?u = "gateway_enqueue"
  let ?w1 = "w\<lparr>clock := shift (clock w)\<rparr>"
  from register_accepts [OF assms] have reg: "\<exists>w'. register ?u cmd start ?w1 = (Inr ?tid, w')" for start .
  have "\<exists>w'. Enqueue_Handle ?u cmd w = (Inr ?tid, w')"
  proof (cases "c_IdempotencyKey cmd = []")
    case True
    with reg [of "clock w 0"] assms(3) show ?thesis
      by (simp add: Enqueue_Handle_def Validate_None_iff [THEN iffD2] gateway_enqueue_def SystemClock_Now_def)
  next
    case False
    with assms(2,5) have "FindByIdempotencyKey (c_IdempotencyKey cmd) ?w1 =
        (Inl (errorf ''postgres: find-by-key: '' ErrNotFound), ?w1)"
      by (intro FindByIdempotencyKey_total) simp_all
    with reg [of "clock w 0"] assms(3) False show ?thesis
      by (simp add: Enqueue_Handle_def Validate_None_iff [THEN iffD2] gateway_enqueue_def SystemClock_Now_def)
  qed
  then obtain w' where e: "Enqueue_Handle ?u cmd w = (Inr ?tid, w')" by blast
  have "view w' (new_ids w 0) \<noteq> None"
    using assms(1) e [unfolded gateway_enqueue_def]
  proof (cases rule: prod.Enqueue_cases)
    case (found tid k t')
    then show ?thesis using assms(1,4) by (auto simp: key_def pg_inv_def uuid_ok_def)
  next
    case (created tid k t' at)
    then show ?thesis using assms(1) by (auto simp: key_def pg_inv_def uuid_ok_def)
  qed simp_all
  with e show ?thesis by blast
qed

text \<open>
  C24. Idempotency: two successful enqueues with the same non-empty idempotency key, the second on
  the tables the first one left, name the same task, and the second one stores nothing.
\<close>

theorem enqueue_idempotent:
  fixes w w1 w2 w3 :: "'r world"
  assumes "pg_inv w" "c_IdempotencyKey cmd \<noteq> []" "c_IdempotencyKey cmd2 = c_IdempotencyKey cmd"
    and "Enqueue_Handle gateway_enqueue cmd w = (Inr tid, w1)" "db w2 = db w1" "lib w2 = lib w1"
    and "Enqueue_Handle gateway_enqueue cmd2 w2 = (Inr tid2, w3)"
  shows "key w tid2 = key w tid \<and> view w3 = view w1"
proof -
  have "step_ok pg_inv key view w w1"
    using prod.Enqueue_step [OF assms(1)] assms(4) by (simp add: gateway_enqueue_def)
  then have "same_view pg_inv key view w1 w2"
    using pg_frame [OF assms(6,5)] by (simp add: same_view_def step_ok_def)
  from prod.Enqueue_idempotent [OF assms(1-3) assms(4) [unfolded gateway_enqueue_def] this
      assms(7) [unfolded gateway_enqueue_def]] this
  show ?thesis by (simp add: same_view_def)
qed

subsection \<open>Cancelling and republishing\<close>

lemma Cancel_result:
  assumes "pg_inv w" "no_faults w" "key w tid = Some k" "view w k = Some t"
    and "Cancel_Handle postgres_Repo tid w = (r, w')"
  shows "if Status t = StatusPending
     then \<exists>t' t''. r = Inr t' \<and> view w' = (view w)(k \<mapsto> t'') \<and> same_identity t t'' \<and> Status t'' = StatusCancelled
     else \<exists>e. r = Inl e \<and> errors_Is e ErrInvalidStateTransition \<and> view w' = view w"
proof (cases "cancel_mutation (clock w 0) t")
  case (Inl e)
  then have n: "\<not> allowed (Status t) StatusCancelled" "errors_Is e ErrInvalidStateTransition"
    using TransitionTo_Inl by (auto simp: cancel_mutation_def)
  have "UpdateTask tid cancel_mutation w = (Inl e, w\<lparr>clock := shift (clock w)\<rparr>)"
    by (rule UpdateTask_refused [where m = cancel_mutation, OF assms(2-4) Inl])
  with assms(5) n show ?thesis by (auto simp: Cancel_Handle_def onError_def allowed_iff)
next
  case (Inr t')
  then have "Status t = StatusPending" "Status t' = StatusCancelled" by (auto simp: cancel_Inr_iff)
  moreover have "r = Inr t'" "view w' = (view w)(k \<mapsto> persisted t t')"
    using UpdateTask_total [where m = cancel_mutation, OF assms(2-4) Inr] UpdateTask_view [OF assms(4) refl] assms(5)
    by (auto simp: Cancel_Handle_def onError_def)
  ultimately show ?thesis by (auto simp: persisted_identity)
qed

lemma Republish_result:
  assumes "pg_inv w" "no_faults w" "key w tid = Some k" "view w k = Some t"
    and "Republish_Handle postgres_Repo tid w = (r, w')"
  shows "if Status t = StatusFailed \<or> Status t = StatusRunning
     then \<exists>t' t''. r = Inr t' \<and> view w' = (view w)(k \<mapsto> t'') \<and> same_identity t t'' \<and>
       Status t'' = StatusPending \<and> AttemptCount t'' = 0 \<and> LastError t'' = []
     else \<exists>e. r = Inl e \<and> errors_Is e ErrInvalidStateTransition \<and> view w' = view w"
proof (cases "republish_mutation (clock w 0) t")
  case (Inl e)
  then have n: "\<not> allowed (Status t) StatusPending" "errors_Is e ErrInvalidStateTransition"
    using TransitionTo_Inl by (auto simp: republish_mutation_def split: sum.splits)
  have "UpdateTask tid republish_mutation w = (Inl e, w\<lparr>clock := shift (clock w)\<rparr>)"
    by (rule UpdateTask_refused [where m = republish_mutation, OF assms(2-4) Inl])
  with assms(5) n show ?thesis by (auto simp: Republish_Handle_def onError_def allowed_iff)
next
  case (Inr t')
  then have "Status t = StatusFailed \<or> Status t = StatusRunning" "Status t' = StatusPending"
    "AttemptCount t' = 0" "LastError t' = []" by (auto simp: republish_Inr_iff)
  moreover from this have "AttemptCount (persisted t t') = 0"
    by (simp add: persisted_attempts fits_int32_def)
  moreover have "r = Inr t'" "view w' = (view w)(k \<mapsto> persisted t t')"
    using UpdateTask_total [where m = republish_mutation, OF assms(2-4) Inr] UpdateTask_view [OF assms(4) refl] assms(5)
    by (auto simp: Republish_Handle_def onError_def)
  ultimately show ?thesis by (auto simp: persisted_identity)
qed

text \<open>
  C25. Exactly the pending tasks can be cancelled, and republishing starts a failed task afresh.
  With a driver that does not fail, \<^verbatim>\<open>Cancel\<close> on a stored task succeeds if and only if the task is
  pending; then it is stored as cancelled. \<^verbatim>\<open>Republish\<close> succeeds on a failed task, which becomes
  pending with no attempt and no error; the transition table also lets a running one through, so
  a task that a worker is executing is put back into the queue. Nothing else changes, and in
  every other status the error is \<^verbatim>\<open>ErrInvalidStateTransition\<close> and no task changes.
\<close>

theorem cancel_republish_exactly:
  assumes "pg_inv w" "no_faults w" "key w tid = Some k" "view w k = Some t"
    and "Cancel_Handle postgres_Repo tid w = (rc, wc)" "Republish_Handle postgres_Repo tid w = (rr, wr)"
  shows "(if Status t = StatusPending
      then \<exists>t' t''. rc = Inr t' \<and> view wc = (view w)(k \<mapsto> t'') \<and> same_identity t t'' \<and> Status t'' = StatusCancelled
      else \<exists>e. rc = Inl e \<and> errors_Is e ErrInvalidStateTransition \<and> view wc = view w) \<and>
    (if Status t = StatusFailed \<or> Status t = StatusRunning
      then \<exists>t' t''. rr = Inr t' \<and> view wr = (view w)(k \<mapsto> t'') \<and> same_identity t t'' \<and>
        Status t'' = StatusPending \<and> AttemptCount t'' = 0 \<and> LastError t'' = []
      else \<exists>e. rr = Inl e \<and> errors_Is e ErrInvalidStateTransition \<and> view wr = view w)"
  using Cancel_result [OF assms(1-5)] Republish_result [OF assms(1-4,6)] by (rule conjI)

subsection \<open>The scheduler\<close>

lemma dispatch_db:
  "db (dispatch_loop (redis_Broker rc) prom_Metrics ts w) = db w \<and>
   lib (dispatch_loop (redis_Broker rc) prom_Metrics ts w) = lib w"
proof (induction ts arbitrary: w)
  case (Cons t ts)
  obtain r w1 where p: "Publish rc taskStream (ID t) w = (r, w1)" by fastforce
  then have "db w1 = db w" "lib w1 = lib w" by (auto dest!: Publish_frame)
  with Cons p show ?case by (cases r) simp_all
qed simp

lemma keeps_pick_rdb: "keeps rdb (PickAndMarkRunning n)" "keeps prom (PickAndMarkRunning n)"
  unfolding PickAndMarkRunning_def by (intro keeps_rules; simp)+

lemma dispatch_published:
  assumes "w' = dispatch_loop (redis_Broker (recording rc)) prom_Metrics ts w"
  shows "\<exists>us. subseq us (map ID ts) \<and> published (snd (rdb w')) = published (snd (rdb w)) @ map (Pair taskStream) us \<and>
     tasksDispatched (prom w') = tasksDispatched (prom w) + length us \<and>
     ((\<forall>s i w. \<not> isl (fst (Publish (recording rc) s i w))) \<longrightarrow> us = map ID ts)"
proof -
  have "\<exists>us. subseq us (map ID ts) \<and> (published \<circ> snd) (rdb w') = (published \<circ> snd) (rdb w) @ map (Pair taskStream) us \<and>
     tasksDispatched (prom w') = tasksDispatched (prom w) + length us \<and>
     ((\<forall>s i w. \<not> isl (fst (broker_Publish (redis_Broker (recording rc)) s i w))) \<longrightarrow> us = map ID ts)"
    unfolding assms by (rule recorded.dispatch_loop_log [where count = "\<lambda>w. tasksDispatched (prom w)"])
      (auto simp: TaskDispatched_def dest!: Publish_frame)
  then show ?thesis by simp
qed

text \<open>A tick with room for every ready task dispatches each of them, when no one holds its row and Redis accepts it.\<close>

lemma tick_dispatches:
  assumes "pg_inv w" "no_faults w" "runnable w (timestamptz (clock w 0)) k" "\<not> locked w k" "view w k = Some t"
    and "int (length (filter (ready (timestamptz (clock w 0)) (db w)) (tasks (db w)))) \<le> sint (int32_of_int (cs_BatchSize cfg))"
    and "tick (scheduler_loop cfg (recording rc)) w = (r, w')"
    and "\<forall>s i w. \<not> isl (fst (Publish (recording rc) s i w))"
  shows "pg_inv w' \<and> key w' = key w \<and> (taskStream, ID t) \<in> set (published (snd (rdb w'))) \<and>
     (\<exists>at. view w' k = Some (t\<lparr>Status := StatusRunning, UpdatedAt := at\<rparr>))"
proof -
  have ok: "uuid_ok (lib w)" using assms(1) by (simp add: pg_inv_def)
  have "0 \<le> sint (int32_of_int (cs_BatchSize cfg))" using assms(6) by linarith
  from PickAndMarkRunning_total [OF assms(2) ok this] obtain ts w1
    where p: "PickAndMarkRunning (cs_BatchSize cfg) w = (Inr ts, w1)" by blast
  from pick_when_room [OF assms(1) p assms(3-6)] obtain at
    where at: "t\<lparr>Status := StatusRunning, UpdatedAt := at\<rparr> \<in> set ts"
      "view w1 k = Some (t\<lparr>Status := StatusRunning, UpdatedAt := timestamptz at\<rparr>)" by blast
  have w': "w' = dispatch_loop (redis_Broker (recording rc)) prom_Metrics ts w1"
    using assms(7) p by (simp add: tick_def op_defs)
  have "published (snd (rdb w')) = published (snd (rdb w1)) @ map (Pair taskStream) (map ID ts)"
    using dispatch_published [OF w'] assms(8) by auto
  moreover have "ID t \<in> set (map ID ts)" using imageI [OF at(1), of ID] by simp
  ultimately have "(taskStream, ID t) \<in> set (published (snd (rdb w')))" by auto
  moreover have "pg_inv w1" "key w1 = key w" using pg_pick [OF p assms(1)] by blast+
  moreover have "db w' = db w1" "lib w' = lib w1" unfolding w' using dispatch_db by blast+
  ultimately show ?thesis using pg_frame [of w' w1] at(2) by auto
qed


subsection \<open>The monitor and the cleanup\<close>

lemma Reset_total:
  assumes "no_faults w"
  shows "ResetStuckRunning timeout w =
     (let th = timestamptz (time_Add (clock w 0) (- timeout));
          upd = update_where (stuck th)
            (\<lambda>r. r\<lparr>r_status := ''pending'', r_worker_id := None, r_updated_at := timestamptz (clock w 1)\<rparr>) (db w) in
      (Inr (fst upd), w\<lparr>clock := shift (shift (clock w)), db := snd upd\<rparr>))"
  using assms
  by (simp add: ResetStuckRunning_def Let_def op_defs time_Now_def sql_NOW_def pool_Exec_total shift_def)

lemma check_resets:
  assumes "no_faults w"
  shows "view (heartbeat_check (scheduler_monitor cfg) w) k =
     map_option (\<lambda>t. if Status t = StatusRunning \<and>
           UpdatedAt t < timestamptz (time_Add (clock w 0) (- cs_HBTimeout cfg))
         then t\<lparr>Status := StatusPending, WorkerID := [], UpdatedAt := timestamptz (clock w 1)\<rparr> else t) (view w k)"
proof -
  let ?th = "timestamptz (time_Add (clock w 0) (- cs_HBTimeout cfg))"
  let ?f = "\<lambda>r. r\<lparr>r_status := ''pending'', r_worker_id := None, r_updated_at := timestamptz (clock w 1)\<rparr>"
  have "view (heartbeat_check (scheduler_monitor cfg) w) k =
      view_db (lib w) (snd (update_where (stuck ?th) ?f (db w))) k"
    by (simp add: heartbeat_check_def scheduler_monitor_def NewHeartbeat_def Reset_total [OF assms] view_def Let_def)
  also have "\<dots> = (case select_task k (db w) of None \<Rightarrow> None
      | Some r \<Rightarrow> Some (stored_task (lib w) (db w) (if stuck ?th r then ?f r else r)))"
    by (rule view_update_where) simp
  also have "\<dots> = map_option (\<lambda>t. if Status t = StatusRunning \<and> UpdatedAt t < ?th
         then t\<lparr>Status := StatusPending, WorkerID := [], UpdatedAt := timestamptz (clock w 1)\<rparr> else t) (view w k)"
    by (auto simp: view_def view_db_def stuck_def status_literals stored_task_def task_of_row_def text_or_empty_def
        split: option.splits)
  finally show ?thesis .
qed

text \<open>
  C27. The monitor resets exactly the stuck tasks: with a driver that does not fail, one check
  puts a task back to pending, without a worker, if it is running and its last sign of life is
  older than the timeout, and leaves every other task as it is.
\<close>

theorem monitor_resets_stuck:
  assumes "no_faults w"
  shows "view (heartbeat_check (scheduler_monitor cfg) w) k =
     map_option (\<lambda>t. if Status t = StatusRunning \<and>
           UpdatedAt t < timestamptz (time_Add (clock w 0) (- cs_HBTimeout cfg))
         then t\<lparr>Status := StatusPending, WorkerID := [], UpdatedAt := timestamptz (clock w 1)\<rparr> else t) (view w k)"
  using assms by (rule check_resets)

lemma Cleanup_total:
  assumes "no_faults w"
  shows "CleanupExpired ttl w =
     (let del = delete_where (expired (timestamptz (time_Add (clock w 0) (- ttl)))) (db w) in
      (Inr (fst del), w\<lparr>clock := shift (clock w), db := snd del\<rparr>))"
  using assms by (simp add: CleanupExpired_def Let_def op_defs time_Now_def pool_Exec_total)

lemma select_deps_delete_eq:
  assumes "schema_ok d" "select_task k d = Some r" "\<not> P r"
  shows "select_deps k (snd (delete_where P d)) =
     filter (\<lambda>v. select_task v (snd (delete_where P d)) \<noteq> None) (select_deps k d)"
proof -
  let ?gone = "r_id ` set (filter P (tasks d))"
  have gone: "u \<in> ?gone \<longleftrightarrow> P r'" if "select_task u d = Some r'" for u r'
  proof -
    have "r'' = r'" if "r'' \<in> set (tasks d)" "r_id r'' = u" for r''
      using that select_task_iff [OF assms(1), of u r''] \<open>select_task u d = Some r'\<close> by simp
    then show ?thesis using select_task_id [OF that] by auto
  qed
  have k: "k \<notin> ?gone" using gone [OF assms(2)] assms(3) by blast
  have v: "v \<notin> ?gone \<longleftrightarrow> select_task v (snd (delete_where P d)) \<noteq> None" if "v \<in> set (select_deps k d)" for v
  proof -
    from dep_exists [OF assms(1) that] obtain r' where r': "select_task v d = Some r'" by blast
    then have "v \<in> ?gone \<longleftrightarrow> P r'" by (rule gone)
    then show ?thesis by (simp add: select_task_delete [OF schema_ok_D(1) [OF assms(1)]] r')
  qed
  have "filter (\<lambda>e. fst e = k) (filter (\<lambda>e. fst e \<notin> ?gone \<and> snd e \<notin> ?gone) es) =
      filter (\<lambda>e. snd e \<notin> ?gone) (filter (\<lambda>e. fst e = k) es)" for es :: "(uuid \<times> uuid) list"
    unfolding filter_filter using k by (intro filter_cong) auto
  then have "select_deps k (snd (delete_where P d)) = filter (\<lambda>v. v \<notin> ?gone) (select_deps k d)"
    by (simp add: select_deps_def delete_where_def Let_def filter_map o_def)
  also have "\<dots> = filter (\<lambda>v. select_task v (snd (delete_where P d)) \<noteq> None) (select_deps k d)"
    using v by (intro filter_cong) auto
  finally show ?thesis .
qed

text \<open>A row that stays keeps its columns and the dependencies that stay.\<close>

lemma cleanup_kept:
  assumes "schema_ok (db w)" "uuid_ok (lib w)" "view w' = view_db (lib w) (snd (delete_where P (db w)))"
    and "select_task k (db w) = Some row" "\<not> P row"
  shows "view w' k = Some ((stored_task (lib w) (db w) row)\<lparr>Dependencies :=
     filter (\<lambda>d. \<exists>u. key w d = Some u \<and> view w' u \<noteq> None) (Dependencies (stored_task (lib w) (db w) row))\<rparr>)"
proof -
  let ?d = "snd (delete_where P (db w))"
  have there: "view w' u \<noteq> None \<longleftrightarrow> select_task u ?d \<noteq> None" for u by (simp add: assms(3) view_db_def)
  have "select_task k ?d = Some row"
    using assms(4,5) by (simp add: select_task_delete [OF schema_ok_D(1) [OF assms(1)]])
  moreover have "select_deps k ?d = filter (\<lambda>u. view w' u \<noteq> None) (select_deps k (db w))"
    by (simp only: select_deps_delete_eq [where P = P, OF assms(1,4,5)] there)
  ultimately have "view w' k = Some ((stored_task (lib w) (db w) row)\<lparr>Dependencies :=
      map (fromUUID (lib w)) (filter (\<lambda>u. view w' u \<noteq> None) (select_deps k (db w)))\<rparr>)"
    using select_task_id [OF assms(4)] by (simp add: assms(3) view_db_def stored_task_def)
  moreover have "map (fromUUID (lib w)) (filter (\<lambda>u. view w' u \<noteq> None) (select_deps k (db w))) =
      filter (\<lambda>d. \<exists>u. key w d = Some u \<and> view w' u \<noteq> None) (Dependencies (stored_task (lib w) (db w) row))"
    using assms(2) select_task_id [OF assms(4)] by (simp add: stored_task_def filter_map o_def)
  ultimately show ?thesis by simp
qed

text \<open>
  C28. The cleanup removes exactly the old finished tasks: with a driver that does not fail, a task
  disappears if it is completed or cancelled and was last touched before the retention time;
  every other task stays as it is, except that its removed dependencies leave its list.
\<close>

theorem cleanup_exact:
  assumes "pg_inv w" "no_faults w" "CleanupExpired ttl w = (r, w')"
  shows "view w' k = (case view w k of None \<Rightarrow> None | Some t \<Rightarrow>
       if terminal (Status t) \<and> UpdatedAt t < timestamptz (time_Add (clock w 0) (- ttl)) then None
       else Some (t\<lparr>Dependencies :=
         filter (\<lambda>d. \<exists>u. key w d = Some u \<and> view w' u \<noteq> None) (Dependencies t)\<rparr>))"
proof -
  let ?P = "expired (timestamptz (time_Add (clock w 0) (- ttl)))"
  let ?d = "snd (delete_where ?P (db w))"
  have ok: "schema_ok (db w)" "uuid_ok (lib w)" using assms(1) by (simp_all add: pg_inv_def)
  have w': "view w' = view_db (lib w) ?d"
    using assms(3) by (auto simp: Cleanup_total [OF assms(2)] Let_def view_def)
  show ?thesis
  proof (cases "select_task k (db w)")
    case None
    then have "view w k = None" by (simp add: view_def view_db_def)
    moreover have "view w' k = None"
      using None by (simp add: w' view_db_def select_task_delete [OF schema_ok_D(1) [OF ok(1)]])
    ultimately show ?thesis by simp
  next
    case (Some row)
    have e: "?P row \<longleftrightarrow> terminal (r_status row) \<and> r_updated_at row < timestamptz (time_Add (clock w 0) (- ttl))"
      by (auto simp: expired_def terminal_def status_literals)
    have f: "UpdatedAt (stored_task (lib w) (db w) row) = r_updated_at row"
      by (simp add: stored_task_def task_of_row_def)
    show ?thesis
    proof (cases "?P row")
      case True
      then have "view w' k = None"
        using Some by (simp add: w' view_db_def select_task_delete [OF schema_ok_D(1) [OF ok(1)]])
      then show ?thesis using True e f by (simp add: view_selected [OF Some])
    next
      case False
      from cleanup_kept [OF ok w' Some this] show ?thesis using False e f by (simp add: view_selected [OF Some])
    qed
  qed
qed

end
