(* ===== verification/Fairness.thy ===== *)
theory Fairness
  imports Requests
begin

text \<open>
  No task starves behind a finite queue. The tasks \<open>ahead\<close> of a task are the pending ones that are
  as urgent or more. A tick that passes over a runnable task marks a full batch of those as
  running, so as long as none join them it is passed over a bounded number of times.
\<close>

definition ahead :: "'r world \<Rightarrow> uuid \<Rightarrow> uuid set" where
  "ahead w k = {u. u \<noteq> k \<and> (\<exists>p t. view w u = Some p \<and> view w k = Some t \<and>
     Status p = StatusPending \<and> dispatch_order p \<le> dispatch_order t)}"

text \<open>The number of rows the query's \<^verbatim>\<open>LIMIT\<close> allows.\<close>

definition batch :: "config_Scheduler \<Rightarrow> int" where
  "batch cfg = sint (int32_of_int (cs_BatchSize cfg))"

text \<open>
  A successful tick that leaves the runnable task \<open>k\<close> where it is, and then whatever else happens
  in the system, as long as \<open>k\<close> stays as it is and no task joins those ahead of it.
\<close>

inductive passed_over :: "config_Scheduler \<Rightarrow> 'r redis_client \<Rightarrow> uuid \<Rightarrow> 'r world \<Rightarrow> 'r world \<Rightarrow> bool"
  for cfg rc k where
  passed_overI: "passed_over cfg rc k w w'"
    if "pg_inv w" "tick (scheduler_loop cfg rc) w = (Inr (), w1)"
      and "runnable w (timestamptz (clock w 0)) k" "\<not> locked w k" "view w1 k = view w k"
      and "pg_inv w'" "view w' k = view w1 k" "ahead w' k \<subseteq> ahead w1 k"

lemma finite_ahead: "finite (ahead w k)"
proof (rule finite_subset)
  show "ahead w k \<subseteq> r_id ` set (tasks (db w))"
    by (rule subsetI, rule ccontr) (auto simp: ahead_def view_def view_db_def select_task_def find_None_key [THEN iffD2])
qed simp

text \<open>A pick takes the task or a batch of those ahead of it.\<close>

lemma picked_ahead:
  assumes "pg_inv w" "select_task k (db w) = Some r" "select_ready lk now n (db w) = Inr rows" "p \<in> set rows"
    and "select_task (r_id p) (db w) = Some p" "ready_order p \<le> ready_order r" "r_id p \<noteq> k"
  shows "r_id p \<in> ahead w k"
proof -
  have po: "priorities_ok (db w)" using assms(1) by (simp add: pg_inv_def schema_ok_def)
  note ready = select_ready_subset [OF assms(3,4)]
  have "dispatch_order (stored_task (lib w) (db w) p) \<le> dispatch_order (stored_task (lib w) (db w) r)"
    using ready assms(6) select_task_id [OF assms(2)] by (simp add: dispatch_order_stored [OF po])
  moreover have "Status (stored_task (lib w) (db w) p) = StatusPending"
    using ready by (simp add: ready_def stored_task_def task_of_row_def status_literals)
  ultimately show ?thesis
    using assms(7) view_selected [OF assms(5)] view_selected [OF assms(2)] by (simp add: ahead_def)
qed

lemma pick_or_ahead:
  assumes "pg_inv w" "PickAndMarkRunning n w = (Inr ts, w')"
    and "runnable w (timestamptz (clock w 0)) k" "\<not> locked w k"
  shows "(\<exists>t. view w' k = Some t \<and> Status t = StatusRunning) \<or>
     view w' k = view w k \<and> sint (int32_of_int n) + int (card (ahead w' k)) \<le> int (card (ahead w k))"
proof (rule pick_rows [OF assms(1,2)])
  fix rows :: "task_row list" and now
  let ?ids = "r_id ` set rows"
  assume s: "select_ready (locked w) (timestamptz (clock w 0)) (int32_of_int n) (db w) = Inr rows"
    and d: "db w' = snd (update_where (\<lambda>r. r_id r \<in> ?ids)
            (\<lambda>r. r\<lparr>r_status := ''running'', r_updated_at := timestamptz now\<rparr>) (db w))" and l: "lib w' = lib w"
    and dist: "distinct (map r_id rows)" and sel: "\<And>r. r \<in> set rows \<Longrightarrow> select_task (r_id r) (db w) = Some r"
  note v = view_marked [OF d l]
  from runnable_row [OF assms(3)] obtain r where r: "select_task k (db w) = Some r" by blast
  show ?thesis
  proof (cases "k \<in> ?ids")
    case True
    then show ?thesis by (simp add: v view_selected [OF r])
  next
    case False
    then have "r \<notin> set rows" using select_task_id [OF r] by blast
    then have m: "int (length rows) = sint (int32_of_int n)" "\<And>p. p \<in> set rows \<Longrightarrow> ready_order p \<le> ready_order r"
      using select_ready_maximal [OF s, of r] select_task_id [OF r] assms(3,4) ready_runnable [OF assms(1) r] by auto
    have "?ids \<subseteq> ahead w k" using picked_ahead [OF assms(1) r s] sel m(2) False by blast
    moreover have "?ids \<inter> ahead w' k = {}" "ahead w' k \<subseteq> ahead w k"
      using False by (auto simp: ahead_def v status_literals split: if_splits)
    ultimately have "card ?ids + card (ahead w' k) \<le> card (ahead w k)"
      by (metis Un_least card_Un_disjoint card_mono finite_ahead finite_imageI finite_set)
    moreover have "card ?ids = length rows" using dist by (metis distinct_card length_map set_map)
    ultimately show ?thesis using m(1) False by (simp add: v)
  qed
qed

lemma tick_or_ahead:
  assumes "pg_inv w" "tick (scheduler_loop cfg rc) w = (Inr (), w')"
    and "runnable w (timestamptz (clock w 0)) k" "\<not> locked w k"
  shows "(\<exists>t. view w' k = Some t \<and> Status t = StatusRunning) \<or>
     view w' k = view w k \<and> batch cfg + int (card (ahead w' k)) \<le> int (card (ahead w k))"
proof -
  obtain ts w1 where p: "PickAndMarkRunning (cs_BatchSize cfg) w = (Inr ts, w1)"
    using assms(2) by (cases "PickAndMarkRunning (cs_BatchSize cfg) w"; cases "fst (PickAndMarkRunning (cs_BatchSize cfg) w)")
      (auto simp: tick_def op_defs)
  then have "db w' = db w1" "lib w' = lib w1" using assms(2) dispatch_db by (auto simp: tick_def op_defs)
  then have "view w' = view w1" by (simp add: view_def fun_eq_iff)
  with pick_or_ahead [OF assms(1) p assms(3,4)] show ?thesis by (simp add: batch_def ahead_def)
qed

inductive_cases passed_overE: "passed_over cfg rc k w w'"

lemma passed_over_ahead:
  assumes "passed_over cfg rc k w w'"
  shows "batch cfg + int (card (ahead w' k)) \<le> int (card (ahead w k))"
  using assms
proof (elim passed_overE)
  fix w1
  assume tick: "pg_inv w" "tick (scheduler_loop cfg rc) w = (Inr (), w1)" "runnable w (timestamptz (clock w 0)) k" "\<not> locked w k"
    and stays: "view w1 k = view w k" and others: "ahead w' k \<subseteq> ahead w1 k"
  from tick(3) stays have "\<not> (\<exists>t. view w1 k = Some t \<and> Status t = StatusRunning)" by (auto simp: runnable_def)
  with tick_or_ahead [OF tick] card_mono [OF finite_ahead others] show ?thesis by simp
qed

lemma passed_over_many:
  "(passed_over cfg rc k ^^ n) w w' \<Longrightarrow> int n * batch cfg + int (card (ahead w' k)) \<le> int (card (ahead w k))"
proof (induction n arbitrary: w')
  case (Suc n)
  then obtain v where v: "(passed_over cfg rc k ^^ n) w v" "passed_over cfg rc k v w'" by auto
  show ?case using Suc.IH [OF v(1)] passed_over_ahead [OF v(2)] by (simp add: algebra_simps)
qed simp

text \<open>
  C6. No starvation: a runnable task that successful ticks have passed over \<open>n\<close> times is marked
  running by the next one, if no other transaction holds its row, as soon as \<open>n + 1\<close> batches are
  more than the pending tasks that were ahead of it at the start; whatever the rest of the system
  does between the ticks, as long as no task joins those ahead.
\<close>

theorem no_starvation:
  assumes "(passed_over cfg rc k ^^ n) w v" "pg_inv v" "tick (scheduler_loop cfg rc) v = (Inr (), v')"
    and "runnable v (timestamptz (clock v 0)) k" "\<not> locked v k"
    and "int (card (ahead w k)) < int (Suc n) * batch cfg"
  shows "\<exists>t. view v' k = Some t \<and> Status t = StatusRunning"
  using tick_or_ahead [OF assms(2-5)] passed_over_many [OF assms(1)] assms(6) by (auto simp: algebra_simps)

end
