(* ===== verification/Retries.thy ===== *)
theory Retries
  imports Requests
begin

text \<open>
  Attempts come to an end. A round is the scheduler's tick that marks a pending task as running,
  then a delivery for it whose handler fails with an error that is not a cancellation; before
  the delivery the environment may change whatever is not the tables, after it anything but the
  task (other tasks, the clock past the backoff, the broker). Every round spends one attempt,
  and the round that reaches the retry limit leaves the task failed.
\<close>

inductive failed_round :: "config_Scheduler \<Rightarrow> config_Worker \<Rightarrow> Registry \<Rightarrow> 'r redis_client \<Rightarrow> uuid \<Rightarrow> 'r world \<Rightarrow> 'r world \<Rightarrow> bool"
  for scfg wcfg reg rc k where
  failed_roundI: "failed_round scfg wcfg reg rc k w w'"
    if "pg_inv w" "tick (scheduler_loop scfg rc) w = (r, w1)"
      and "view w k = Some t" "Status t = StatusPending" "view w1 k = Some t1" "Status t1 = StatusRunning"
      and "db w2 = db w1" "lib w2 = lib w1" "no_faults w2" "key w2 (d_TaskID d) = Some k"
      and "handlers reg (Type t) = Some h" "er_err (h call (Payload t)) = Some e" "\<not> errors_Is e ContextCanceled"
      and "process (worker_execute wcfg reg rc) d call (replicate n HbTicker @ HandlerReturned # es) w2 = (b, w3)"
      and "pg_inv w'" "view w' k = view w3 k"

text \<open>The number of rounds a pending task has left: at least one, whatever the limit.\<close>

definition rounds_left :: "Task \<Rightarrow> nat" where
  "rounds_left t = max 1 (nat (sint (RetryLimit t) - sint (AttemptCount t)))"

lemma tick_marks:
  assumes "pg_inv w" "tick (scheduler_loop cfg rc) w = (r, w')" "view w k = Some t"
    "view w' k = Some t1" "Status t = StatusPending" "Status t1 = StatusRunning"
  shows "pg_inv w' \<and> (\<exists>at. t1 = t\<lparr>Status := StatusRunning, UpdatedAt := at\<rparr>)"
proof -
  obtain rp w1 where p: "PickAndMarkRunning (cs_BatchSize cfg) w = (rp, w1)" by fastforce
  have w': "db w' = db w1" "lib w' = lib w1"
    using assms(2) p dispatch_db by (cases rp; auto simp: tick_def op_defs)+
  then have v: "view w' = view w1" "pg_inv w' \<longleftrightarrow> pg_inv w1" using pg_frame [of w' w1] by simp_all
  from pg_pick_law [OF p assms(1)]
  have "pg_inv w1" "view w1 k = view w k \<or> (\<exists>t at. view w k = Some t \<and> Status t = StatusPending \<and>
      view w1 k = Some (t\<lparr>Status := StatusRunning, UpdatedAt := at\<rparr>))" by auto
  then show ?thesis using assms(3-6) v by auto
qed

text \<open>One round spends one attempt, or fails the task when it was the last one.\<close>

lemma failed_round_spends:
  assumes "failed_round scfg wcfg reg rc k w w'" "view w k = Some t"
  shows "Status t = StatusPending \<and> (\<exists>t'. view w' k = Some t' \<and> same_identity t t' \<and>
     (if rounds_left t = 1 then Status t' = StatusFailed
      else Status t' = StatusPending \<and> rounds_left t = Suc (rounds_left t')))"
  using assms(1)
proof cases
  case (failed_roundI r w1 s t1 w2 d h call e n es b w3)
  have s: "s = t" using failed_roundI(3) assms(2) by simp
  from tick_marks [OF failed_roundI(1,2,3,5,4,6)] obtain at
    where w1: "pg_inv w1" "t1 = t\<lparr>Status := StatusRunning, UpdatedAt := at\<rparr>" by (auto simp: s)
  have w2: "pg_inv w2" "view w2 k = Some t1" using pg_frame [OF failed_roundI(8,7)] w1(1) failed_roundI(5) by simp_all
  have h: "handlers reg (Type t1) = Some h" "er_err (h call (Payload t1)) = Some e"
    using failed_roundI(11,12) by (simp_all add: w1(2) s)
  have id: "same_identity t t1" by (simp add: w1(2) same_identity_def)
  have c: "AttemptCount t1 = AttemptCount t" "RetryLimit t1 = RetryLimit t" by (simp_all add: w1(2))
  note run = w2(1) failed_roundI(9,10) w2(2) failed_roundI(6) h
  show ?thesis
  proof (cases "sint (AttemptCount t) + 1 < sint (RetryLimit t)")
    case True
    then obtain t' where t': "view w3 k = Some t'" "same_identity t1 t'" "Status t' = StatusPending"
      "sint (AttemptCount t') = sint (AttemptCount t) + 1" "RetryLimit t' = RetryLimit t"
      using process_retries [OF run, of wcfg rc n es] failed_roundI(13,14) c by auto
    then have "rounds_left t \<noteq> 1" "rounds_left t = Suc (rounds_left t')"
      using True by (auto simp: rounds_left_def)
    with t' failed_roundI(4,16) same_identity_trans [OF id t'(2)] s show ?thesis by simp
  next
    case False
    then obtain t' where t': "view w3 k = Some t'" "same_identity t1 t'" "Status t' = StatusFailed"
      using process_fails [OF run, of wcfg rc n es] failed_roundI(14) c by auto
    have "rounds_left t = 1" using False by (simp add: rounds_left_def)
    with t' failed_roundI(4,16) same_identity_trans [OF id t'(2)] s show ?thesis by simp
  qed
qed

text \<open>
  C12. Retries terminate: a task that keeps failing is attempted \<open>RetryLimit - AttemptCount\<close> times
  and at least once, no more. After fewer failed rounds it is pending again, and as many leave
  it failed; whatever else happens in the system between the rounds, there is no further one.
\<close>

theorem retries_terminate:
  assumes "(failed_round scfg wcfg reg rc k ^^ n) w w'" "view w k = Some t" "Status t = StatusPending"
  shows "n \<le> rounds_left t \<and> (\<exists>t'. view w' k = Some t' \<and> same_identity t t' \<and>
     Status t' = (if n < rounds_left t then StatusPending else StatusFailed))"
  using assms
proof (induction n arbitrary: w t)
  case 0
  then show ?case by (simp add: rounds_left_def)
next
  case (Suc n)
  from relpowp_Suc_D2 [OF Suc.prems(1)] obtain v
    where v: "failed_round scfg wcfg reg rc k w v" "(failed_round scfg wcfg reg rc k ^^ n) v w'" by blast
  from failed_round_spends [OF v(1) Suc.prems(2)] obtain t1 where t1: "view v k = Some t1" "same_identity t t1"
    "if rounds_left t = 1 then Status t1 = StatusFailed
     else Status t1 = StatusPending \<and> rounds_left t = Suc (rounds_left t1)" by blast
  show ?case
  proof (cases "rounds_left t = 1")
    case True
    with t1 have f: "Status t1 = StatusFailed" by simp
    have "n = 0"
    proof (rule ccontr)
      assume "n \<noteq> 0"
      then obtain m where "n = Suc m" by (cases n) simp_all
      from relpowp_Suc_D2 [OF v(2) [unfolded this]] obtain x where "failed_round scfg wcfg reg rc k v x" by blast
      from failed_round_spends [OF this t1(1)] f show False by simp
    qed
    with True f t1 v(2) show ?thesis by auto
  next
    case False
    with t1 Suc.IH [OF v(2) t1(1)] show ?thesis by (auto dest: same_identity_trans)
  qed
qed

end
