(* ===== verification/Metrics_Registry.thy ===== *)
theory Metrics_Registry
  imports Platform
begin

text \<open>
  The rest of \<^verbatim>\<open>src/internal/adapter/metrics/prom/metrics.go\<close>: the constructor, which registers every
  metric under its name, and the routes of the HTTP server of \<^verbatim>\<open>Serve\<close>. The registry is the
  Prometheus library's: a parameter that registers a collector or fails, which \<^verbatim>\<open>promauto\<close> turns
  into a panic. A bucket's bound is a duration, as the observations are.
\<close>

datatype collector =
    Counter (Name: string)
  | Histogram (Name: string) (Buckets: "duration list")
  | Gauge (Name: string)

type_synonym 'g registerer = "collector \<Rightarrow> 'g \<Rightarrow> go_error + 'g"

definition counters :: "collector list" where
  "counters =
     [Counter ''rsufz_tasks_enqueued_total'', Counter ''rsufz_tasks_completed_total'',
      Counter ''rsufz_tasks_failed_total'', Counter ''rsufz_tasks_retried_total'',
      Counter ''rsufz_tasks_dispatched_total'']"

definition task_duration_buckets :: "duration list" where
  "task_duration_buckets = List.map (\<lambda>ms. word_of_nat ms * time_Millisecond) [10, 50, 100, 250, 500, 1000, 2500, 5000, 10000]"

definition enqueue_latency_buckets :: "duration list" where
  "enqueue_latency_buckets = List.map (\<lambda>ms. word_of_nat ms * time_Millisecond) [1, 5, 10, 25, 50, 100, 250]"

definition collectors :: "collector list" where
  "collectors = counters @
     [Histogram ''rsufz_task_duration_seconds'' task_duration_buckets,
      Histogram ''rsufz_enqueue_latency_seconds'' enqueue_latency_buckets,
      Gauge ''rsufz_tasks_pending'']"

text \<open>\<^verbatim>\<open>promauto.With(reg)\<close>: each collector in turn, the first failure a panic.\<close>

fun promauto :: "'g registerer \<Rightarrow> collector list \<Rightarrow> 'g \<Rightarrow> go_error + 'g" where
  "promauto register_in [] g = Inr g"
| "promauto register_in (c # cs) g =
     (case register_in c g of Inl err \<Rightarrow> Inl err | Inr g1 \<Rightarrow> promauto register_in cs g1)"

definition New_prom :: "'g registerer \<Rightarrow> 'g \<Rightarrow> go_error + (prom_metrics \<times> 'g)" where
  "New_prom register_in g =
     (case promauto register_in collectors g of Inl p \<Rightarrow> Inl p | Inr g1 \<Rightarrow> Inr (new_prom, g1))"

text \<open>The routes, for a path in its canonical form; the exposition itself is the library's.\<close>

datatype route = Exposition | StatusOK | PageNotFound

definition metrics_mux :: "string \<Rightarrow> route" where
  "metrics_mux path =
     (if path = ''/metrics'' then Exposition else if path = ''/healthz'' then StatusOK else PageNotFound)"

text \<open>
  What is documented of a registry: a histogram's bounds must increase, a name can be registered
  once. \<open>names\<close> reads the names that are taken.
\<close>

definition registry_ok :: "('g \<Rightarrow> string set) \<Rightarrow> 'g registerer \<Rightarrow> bool" where
  "registry_ok names register_in \<longleftrightarrow> (\<forall>c g.
     (Name c \<in> names g \<longrightarrow> isl (register_in c g)) \<and>
     (Name c \<notin> names g \<longrightarrow> (\<forall>s bs. c = Histogram s bs \<longrightarrow> sorted_wrt (\<lambda>x y. sint x < sint y) bs) \<longrightarrow>
        (\<exists>g1. register_in c g = Inr g1 \<and> names g1 = insert (Name c) (names g))))"

text \<open>The counters and the histograms of one event move together.\<close>

definition metrics_agree :: "prom_metrics \<Rightarrow> bool" where
  "metrics_agree m \<longleftrightarrow>
     tasksEnqueued m = length (enqueueLatency m) \<and> tasksCompleted m = length (taskDuration m)"

lemma buckets_increase:
  "sorted_wrt (\<lambda>x y. sint x < sint y) task_duration_buckets"
  "sorted_wrt (\<lambda>x y. sint x < sint y) enqueue_latency_buckets"
  by (simp_all add: task_duration_buckets_def enqueue_latency_buckets_def time_Millisecond_def)

lemma collectors_names: "distinct (List.map Name collectors)" "length collectors = 8"
  by (simp_all add: collectors_def counters_def)

lemma collectors_histograms:
  "Histogram s bs \<in> set collectors \<Longrightarrow> sorted_wrt (\<lambda>x y. sint x < sint y) bs"
  using buckets_increase by (auto simp: collectors_def counters_def)

lemma promauto_registers:
  assumes "registry_ok names register_in" "distinct (List.map Name cs)" "Name ` set cs \<inter> names g = {}"
    and "\<And>s bs. Histogram s bs \<in> set cs \<Longrightarrow> sorted_wrt (\<lambda>x y. sint x < sint y) bs"
  shows "\<exists>g1. promauto register_in cs g = Inr g1 \<and> names g1 = Name ` set cs \<union> names g"
  using assms(2-)
proof (induction cs arbitrary: g)
  case (Cons c cs)
  obtain g1 where "register_in c g = Inr g1" "names g1 = insert (Name c) (names g)"
    using assms(1) [unfolded registry_ok_def, rule_format, of c g] Cons.prems by auto
  with Cons.IH [of g1] Cons.prems show ?case by auto
qed simp

text \<open>A constructor call on a registry of its own succeeds, and a second one on the same registry panics.\<close>

lemma New_prom_once:
  assumes "registry_ok names register_in" "names g = {}"
  obtains g1 where "New_prom register_in g = Inr (new_prom, g1)" "names g1 = Name ` set collectors"
    "isl (New_prom register_in g1)"
proof -
  obtain g1 where g1: "promauto register_in collectors g = Inr g1" "names g1 = Name ` set collectors"
    using promauto_registers [OF assms(1) collectors_names(1), of g] collectors_histograms assms(2) by auto
  obtain c cs where c: "collectors = c # cs" by (cases collectors) (simp_all add: collectors_def counters_def)
  then have "c \<in> set collectors" by (metis list.set_intros(1))
  then have "isl (register_in c g1)" using assms(1) g1(2) unfolding registry_ok_def by blast
  then have "isl (promauto register_in collectors g1)" unfolding c by (auto simp: isl_def)
  then have "isl (New_prom register_in g1)"
    by (cases "promauto register_in collectors g1") (simp_all add: New_prom_def)
  with g1 show thesis by (intro that [of g1]) (simp_all add: New_prom_def)
qed

lemma metrics_stay_in_step:
  "metrics_agree new_prom"
  "metrics_agree m \<Longrightarrow> metrics_agree (TaskEnqueued d m)" "metrics_agree m \<Longrightarrow> metrics_agree (TaskCompleted d m)"
  "metrics_agree m \<Longrightarrow> metrics_agree (TaskFailed m)" "metrics_agree m \<Longrightarrow> metrics_agree (TaskRetried m)"
  "metrics_agree m \<Longrightarrow> metrics_agree (TaskDispatched m)" "metrics_agree m \<Longrightarrow> metrics_agree (SetPending n m)"
  by (simp_all add: metrics_agree_def new_prom_def TaskEnqueued_def TaskCompleted_def TaskFailed_def
      TaskRetried_def TaskDispatched_def SetPending_def)

end
