(* ===== verification/Bootstrap.thy ===== *)
theory Bootstrap
  imports Platform
begin

text \<open>
  Starting and stopping the processes (\<^verbatim>\<open>src/internal/app\<close>, \<^verbatim>\<open>src/internal/adapter/trace/otel\<close>,
  \<^verbatim>\<open>src/internal/platform/migrate\<close>, \<^verbatim>\<open>src/internal/version\<close>). What they share is the order in which they
  acquire resources, the wrapping of the first error, and the deferred releases. The state is
  the sequence of outcomes of the library calls to come and the trail of acquisitions and
  releases; a \<^verbatim>\<open>defer\<close> is the bracket \<open>deferring\<close>. What runs once everything is in place is the
  argument \<open>serve\<close>, which may fail, go on running, or panic in one of its goroutines, and then
  the process is gone without its deferred calls; \<open>Lifecycle\<close> gives it the groups of goroutines.
\<close>

datatype halt = Err go_error | Blocked | Panicking

text \<open>\<^verbatim>\<open>fmt.Errorf("...: %w", err)\<close> on the errors among them.\<close>

definition annotate :: "string \<Rightarrow> halt \<Rightarrow> halt" where
  "annotate s h = (case h of Err e \<Rightarrow> Err (errorf s e) | Blocked \<Rightarrow> Blocked | Panicking \<Rightarrow> Panicking)"

definition returns :: "halt + 'a \<Rightarrow> bool" where
  "returns r \<longleftrightarrow> (case r of Inl (Err _) \<Rightarrow> True | Inl _ \<Rightarrow> False | Inr _ \<Rightarrow> True)"

datatype resource = Tracing | SqlDB | PgxPool | RedisClient

datatype boot_event = Acquired resource | Released resource

record boot =
  outcomes :: "nat \<Rightarrow> go_error option"
  trail :: "boot_event list"

definition lib_call :: "(halt, unit, boot) op" where
  "lib_call b = (case outcomes b 0 of Some e \<Rightarrow> Inl (Err e) | None \<Rightarrow> Inr (), b\<lparr>outcomes := shift (outcomes b)\<rparr>)"

definition log_event :: "boot_event \<Rightarrow> boot \<Rightarrow> boot" where
  "log_event ev b = b\<lparr>trail := trail b @ [ev]\<rparr>"

definition acquire :: "resource \<Rightarrow> (halt, unit, boot) op" where
  "acquire r = andThen lib_call (\<lambda>_ b. (Inr (), log_event (Acquired r) b))"

text \<open>\<^verbatim>\<open>defer x.Close()\<close> before \<open>m\<close>: the release happens when \<open>m\<close> returns, whatever it returns.\<close>

definition deferring :: "(boot \<Rightarrow> boot) \<Rightarrow> (halt, 'a, boot) op \<Rightarrow> (halt, 'a, boot) op" where
  "deferring f m b = (case m b of (r, b1) \<Rightarrow> (r, if returns r then f b1 else b1))"

subsection \<open>Tracing and migrations\<close>

datatype exporter = NoopExporter | StdoutExporter | OTLPExporter string

text \<open>\<^verbatim>\<open>otel.Setup\<close> returns the shutdown function along with what it installed.\<close>

definition Setup :: "string \<Rightarrow> (halt, exporter \<times> (boot \<Rightarrow> boot), boot) op" where
  "Setup otlpEndpoint =
     (if otlpEndpoint = ''noop'' then ret (NoopExporter, \<lambda>b. b)
      else
        andThen (onError (annotate ''otel: resource: '') lib_call) (\<lambda>_.
        andThen (onError (annotate ''otel: exporter: '') lib_call) (\<lambda>_ b.
          (Inr (if otlpEndpoint = [] then StdoutExporter else OTLPExporter otlpEndpoint,
                log_event (Released Tracing)),
           log_event (Acquired Tracing) b))))"

definition migrate_Up :: "(halt, unit, boot) op" where
  "migrate_Up =
     andThen (onError (annotate ''migrate: set dialect: '') lib_call) (\<lambda>_.
     onError (annotate ''migrate: up: '') lib_call)"

definition migrate_Down :: "(halt, unit, boot) op" where
  "migrate_Down =
     andThen (onError (annotate ''migrate: set dialect: '') lib_call) (\<lambda>_.
     onError (annotate ''migrate: down: '') lib_call)"

subsection \<open>The processes\<close>

definition RunAPIGateway :: "config_APIGateway \<Rightarrow> (halt, unit, boot) op \<Rightarrow> (halt, unit, boot) op" where
  "RunAPIGateway cfg serve =
     andThen (onError (annotate ''app/apigateway: otel: '') (Setup (ag_OTLPEndpoint cfg))) (\<lambda>(_, shutdownTrace).
     deferring shutdownTrace (
     andThen (onError (annotate ''app/apigateway: sql.Open: '') (acquire SqlDB)) (\<lambda>_.
     andThen (onError (annotate ''app/apigateway: migrate: '') migrate_Up) (\<lambda>_.
     andThen (\<lambda>b. (Inr (), log_event (Released SqlDB) b)) (\<lambda>_.
     andThen (onError (annotate ''app/apigateway: pgxpool: '') (acquire PgxPool)) (\<lambda>_.
     deferring (log_event (Released PgxPool)) (
     andThen (onError (annotate ''app/apigateway: postgres ping: '') lib_call) (\<lambda>_.
     serve))))))))"

definition RunScheduler :: "config_Scheduler \<Rightarrow> (halt, unit, boot) op \<Rightarrow> (halt, unit, boot) op" where
  "RunScheduler cfg serve =
     andThen (onError (annotate ''app/scheduler: otel: '') (Setup (cs_OTLPEndpoint cfg))) (\<lambda>(_, shutdownTrace).
     deferring shutdownTrace (
     andThen (onError (annotate ''app/scheduler: pgxpool: '') (acquire PgxPool)) (\<lambda>_.
     deferring (log_event (Released PgxPool)) (
     andThen (onError (annotate ''app/scheduler: postgres ping: '') lib_call) (\<lambda>_.
     andThen (\<lambda>b. (Inr (), log_event (Acquired RedisClient) b)) (\<lambda>_.
     deferring (log_event (Released RedisClient)) (
     andThen (onError (annotate ''app/scheduler: redis ping: '') lib_call) (\<lambda>_.
     serve))))))))"

definition RunWorker :: "config_Worker \<Rightarrow> (halt, unit, boot) op \<Rightarrow> (halt, unit, boot) op" where
  "RunWorker cfg serve =
     andThen (onError (annotate ''app/worker: otel: '') (Setup (cw_OTLPEndpoint cfg))) (\<lambda>(_, shutdownTrace).
     deferring shutdownTrace (
     andThen (onError (annotate ''app/worker: pgxpool: '') (acquire PgxPool)) (\<lambda>_.
     deferring (log_event (Released PgxPool)) (
     andThen (onError (annotate ''app/worker: postgres ping: '') lib_call) (\<lambda>_.
     andThen (\<lambda>b. (Inr (), log_event (Acquired RedisClient) b)) (\<lambda>_.
     deferring (log_event (Released RedisClient)) (
     andThen (onError (annotate ''app/worker: redis ping: '') lib_call) (\<lambda>_.
     serve))))))))"

text \<open>\<^verbatim>\<open>version.Build\<close>: the linker's value, the module's version unless it is unset or a development build, or \<^verbatim>\<open>dev\<close>.\<close>

definition Build :: "string \<Rightarrow> string option \<Rightarrow> string" where
  "Build val build_info =
     (if val \<noteq> [] then val
      else case build_info of
          Some v \<Rightarrow> if v \<noteq> [] \<and> v \<noteq> ''(devel)'' then v else ''dev''
        | None \<Rightarrow> ''dev'')"

subsection \<open>What is still held\<close>

fun held_after :: "boot_event list \<Rightarrow> resource list \<Rightarrow> resource list" where
  "held_after [] rs = rs"
| "held_after (Acquired r # es) rs = held_after es (r # rs)"
| "held_after (Released r # es) rs = held_after es (remove1 r rs)"

definition held :: "boot \<Rightarrow> resource list" where
  "held b = held_after (trail b) []"

text \<open>An operation that, when it returns, has given back what it took.\<close>

definition restores :: "(halt, 'a, boot) op \<Rightarrow> bool" where
  "restores m \<longleftrightarrow> (\<forall>b r b'. m b = (r, b') \<longrightarrow> returns r \<longrightarrow> held b' = held b)"

lemma restoresI: "(\<And>b r b'. m b = (r, b') \<Longrightarrow> returns r \<Longrightarrow> held b' = held b) \<Longrightarrow> restores m"
  by (simp add: restores_def)

lemma restoresD: "restores m \<Longrightarrow> m b = (r, b') \<Longrightarrow> returns r \<Longrightarrow> held b' = held b"
  by (auto simp: restores_def)

lemma returns_simps [simp]:
  "returns (Inr a)" "returns (Inl (Err e))" "\<not> returns (Inl Blocked)" "\<not> returns (Inl Panicking)"
  "returns (Inl (annotate s h)) = returns (Inl h)"
  by (auto simp: returns_def annotate_def split: halt.splits)

lemma held_append: "held_after (xs @ ys) rs = held_after ys (held_after xs rs)"
  by (induction xs rs rule: held_after.induct) simp_all

lemma held_log [simp]:
  "held (log_event (Acquired r) b) = r # held b" "held (log_event (Released r) b) = remove1 r (held b)"
  by (simp_all add: held_def log_event_def held_append)

lemma keeps_held_lib_call [simp, intro]: "keeps held lib_call"
  by (simp add: keeps_def lib_call_def held_def)

lemma keeps_held_migrate: "keeps held migrate_Up"
  unfolding migrate_Up_def by (intro keeps_andThen) simp_all

lemma acquire_held:
  "acquire r b = (x, b') \<Longrightarrow> held b' = (if isl x then held b else r # held b)"
  by (auto simp: acquire_def andThen_iff dest: keepsD [OF keeps_held_lib_call])

text \<open>A resource that is acquired and then released by a bracket leaves nothing behind.\<close>

lemma deferring_held:
  assumes "restores m" "deferring (log_event (Released r)) m b = (x, b')" "returns x"
  shows "held b' = remove1 r (held b)"
proof -
  obtain y b1 where m: "m b = (y, b1)" by fastforce
  with assms show ?thesis using restoresD [OF assms(1) m] by (auto simp: deferring_def)
qed

lemma restores_bracket:
  assumes "restores m"
  shows "restores (andThen (onError g (acquire r)) (\<lambda>_. deferring (log_event (Released r)) m))"
proof (rule restoresI)
  fix b x b'
  assume run: "andThen (onError g (acquire r)) (\<lambda>_. deferring (log_event (Released r)) m) b = (x, b')" "returns x"
  obtain y b1 where a: "acquire r b = (y, b1)" by fastforce
  show "held b' = held b"
  proof (cases y)
    case (Inl e)
    with run a acquire_held [OF a] show ?thesis by (simp add: op_defs)
  next
    case (Inr u)
    with run a have "deferring (log_event (Released r)) m b1 = (x, b')" by (simp add: op_defs)
    from deferring_held [OF assms this run(2)] acquire_held [OF a] Inr show ?thesis by simp
  qed
qed

lemma restores_open_bracket:
  assumes "restores m"
  shows "restores (andThen (\<lambda>b. (Inr (), log_event (Acquired r) b)) (\<lambda>_. deferring (log_event (Released r)) m))"
proof (rule restoresI)
  fix b x b'
  assume run: "andThen (\<lambda>b. (Inr (), log_event (Acquired r) b)) (\<lambda>_. deferring (log_event (Released r)) m) b = (x, b')"
    "returns x"
  then have "deferring (log_event (Released r)) m (log_event (Acquired r) b) = (x, b')" by (simp add: op_defs)
  from deferring_held [OF assms this run(2)] show "held b' = held b" by simp
qed

lemma restores_ping: "restores m \<Longrightarrow> restores (andThen (onError g lib_call) (\<lambda>_. m))"
  by (rule restoresI)
    (auto simp: andThen_iff onError_iff dest!: keepsD [OF keeps_held_lib_call] dest: restoresD)

lemmas restores_rules = restores_bracket restores_open_bracket restores_ping

lemma Setup_held:
  assumes "Setup ep b = (x, b1)"
  shows "case x of Inl _ \<Rightarrow> held b1 = held b
     | Inr (_, down) \<Rightarrow> (down = (\<lambda>b. b) \<and> held b1 = held b) \<or> (down = log_event (Released Tracing) \<and> held b1 = Tracing # held b)"
  using assms by (auto simp: Setup_def andThen_iff onError_iff split: if_splits dest!: keepsD [OF keeps_held_lib_call])

lemma traced_held:
  assumes "andThen (onError g (Setup ep)) (\<lambda>(_, down). deferring down m) b = (r, b')" "returns r"
    and "\<And>b1 r b2. m b1 = (r, b2) \<Longrightarrow> returns r \<Longrightarrow> held b2 = held b1 \<or> held b2 = SqlDB # held b1 \<and> Q r"
  shows "held b' = held b \<or> held b' = SqlDB # held b \<and> Q r"
proof -
  obtain x b1 where s: "Setup ep b = (x, b1)" by fastforce
  show ?thesis
  proof (cases x)
    case (Inl e)
    with assms(1) s Setup_held [OF s] show ?thesis by (auto simp: op_defs)
  next
    case (Inr p)
    obtain ex down where p: "p = (ex, down)" by fastforce
    obtain r2 b2 where m: "m b1 = (r2, b2)" by fastforce
    have "r = r2" "b' = down b2" using assms(1,2) s Inr p m by (auto simp: op_defs deferring_def split: if_splits)
    with Setup_held [OF s] assms(3) [OF m] assms(2) Inr p show ?thesis by auto
  qed
qed

lemma traced_restores:
  assumes "restores m"
  shows "restores (andThen (onError g (Setup ep)) (\<lambda>(_, down). deferring down m))"
  using traced_held [where Q = "\<lambda>_. False"] restoresD [OF assms] by (intro restoresI) blast

lemma migrated_held:
  assumes "restores rest" "returns r"
    and "andThen (onError g (acquire SqlDB)) (\<lambda>_. andThen (onError h migrate_Up) (\<lambda>_.
     andThen (\<lambda>b. (Inr (), log_event (Released SqlDB) b)) (\<lambda>_. rest))) b = (r, b')"
  shows "held b' = held b \<or> held b' = SqlDB # held b \<and> (\<exists>e. r = Inl (h e))"
proof -
  obtain y b1 where a: "acquire SqlDB b = (y, b1)" by fastforce
  obtain z b2 where u: "migrate_Up b1 = (z, b2)" by fastforce
  have h: "held b1 = (if isl y then held b else SqlDB # held b)" "held b2 = held b1"
    using acquire_held [OF a] keepsD [OF keeps_held_migrate u] by simp_all
  consider e where "y = Inl e" | e where "y = Inr ()" "z = Inl e" | "y = Inr ()" "z = Inr ()"
    by (cases y; cases z) auto
  then show ?thesis
  proof cases
    case 3
    with assms(3) a u have "rest (log_event (Released SqlDB) b2) = (r, b')" by (simp add: op_defs)
    from restoresD [OF assms(1) this assms(2)] h 3 show ?thesis by simp
  qed (use assms(3) a u h in \<open>auto simp: op_defs\<close>)
qed

lemma RunScheduler_restores: "restores serve \<Longrightarrow> restores (RunScheduler cs serve)"
  unfolding RunScheduler_def by (intro traced_restores restores_rules)

lemma RunWorker_restores: "restores serve \<Longrightarrow> restores (RunWorker cw serve)"
  unfolding RunWorker_def by (intro traced_restores restores_rules)

lemma RunAPIGateway_held:
  assumes "restores serve" "RunAPIGateway ca serve b = (r, b')" "returns r"
  shows "held b' = held b \<or> held b' = SqlDB # held b \<and> (\<exists>h. r = Inl (annotate ''app/apigateway: migrate: '' h))"
  by (rule traced_held [OF assms(2) [unfolded RunAPIGateway_def] assms(3)], rule migrated_held [rotated], assumption+)
    (intro restores_rules assms(1))

text \<open>
  C37. A process that stops gives back what it took: on every path by which the scheduler's and
  the worker's \<^verbatim>\<open>Run\<close> function returns, and the gateway's except one, nothing acquired is still
  held. The one exception is a migration that fails: then the gateway returns without closing
  the database handle it opened for it.
\<close>

theorem processes_release:
  assumes "restores serve"
  shows "restores (RunScheduler cs serve) \<and> restores (RunWorker cw serve) \<and>
     (RunAPIGateway ca serve b = (r, b') \<and> returns r \<longrightarrow>
      held b' = held b \<or> held b' = SqlDB # held b \<and> (\<exists>h. r = Inl (annotate ''app/apigateway: migrate: '' h)))"
  using RunScheduler_restores [OF assms] RunWorker_restores [OF assms] RunAPIGateway_held [OF assms] by blast

end
