(* ===== verification/Grpc_Server.thy ===== *)
theory Grpc_Server
  imports Requests
begin

text \<open>
  The gRPC adapter (\<^verbatim>\<open>src/internal/adapter/grpcserver\<close>): the mapping of tasks, statuses and errors,
  the handlers, and the interceptors. The messages are records with the fields of the generated
  structs (\<^verbatim>\<open>src/gen/go/rsufz/v1\<close>) the handlers read and write. The library's timestamp messages
  are a type of their own, read and made by the functions of \<open>timestamppb\<close>. A handler is an
  operation whose error is a gRPC status.
\<close>

subsection \<open>Messages\<close>

type_synonym TaskStatus = int32

definition TASK_STATUS_UNSPECIFIED :: TaskStatus where "TASK_STATUS_UNSPECIFIED = 0"
definition TASK_STATUS_PENDING :: TaskStatus where "TASK_STATUS_PENDING = 1"
definition TASK_STATUS_RUNNING :: TaskStatus where "TASK_STATUS_RUNNING = 2"
definition TASK_STATUS_COMPLETED :: TaskStatus where "TASK_STATUS_COMPLETED = 3"
definition TASK_STATUS_FAILED :: TaskStatus where "TASK_STATUS_FAILED = 4"
definition TASK_STATUS_CANCELLED :: TaskStatus where "TASK_STATUS_CANCELLED = 5"

record 'ts proto_Task =
  p_Id :: string
  p_Type :: string
  p_Payload :: bytes
  p_Priority :: uint32
  p_Status :: TaskStatus
  p_DependencyIds :: "string list"
  p_ScheduledAt :: "'ts option"
  p_CreatedAt :: "'ts option"
  p_UpdatedAt :: "'ts option"
  p_AttemptCount :: int32
  p_RetryLimit :: int32
  p_LastError :: string
  p_Result :: bytes
  p_WorkerId :: string
  p_IdempotencyKey :: string

record 'ts EnqueueTaskRequest =
  q_Type :: string
  q_Payload :: bytes
  q_Priority :: uint32
  q_DependencyIds :: "string list"
  q_ScheduledAt :: "'ts option"
  q_RetryLimit :: int32
  q_IdempotencyKey :: string

record ListTasksRequest =
  l_StatusFilter :: TaskStatus
  l_TypeFilter :: string
  l_Page :: int32
  l_PageSize :: int32

record 'ts ListTasksResponse =
  lr_Tasks :: "'ts proto_Task list"
  lr_Total :: int32

text \<open>\<^verbatim>\<open>timestamppb.New\<close>, \<^verbatim>\<open>IsValid\<close> and \<^verbatim>\<open>AsTime\<close>.\<close>

record 'ts timestamppb =
  ts_New :: "gotime \<Rightarrow> 'ts"
  ts_IsValid :: "'ts \<Rightarrow> bool"
  ts_AsTime :: "'ts \<Rightarrow> gotime"

subsection \<open>mapper.go\<close>

definition statusToProto :: "Status \<Rightarrow> TaskStatus" where
  "statusToProto s =
     (if s = StatusPending then TASK_STATUS_PENDING
      else if s = StatusRunning then TASK_STATUS_RUNNING
      else if s = StatusCompleted then TASK_STATUS_COMPLETED
      else if s = StatusFailed then TASK_STATUS_FAILED
      else if s = StatusCancelled then TASK_STATUS_CANCELLED
      else TASK_STATUS_UNSPECIFIED)"

definition protoToStatus :: "TaskStatus \<Rightarrow> Status" where
  "protoToStatus s =
     (if s = TASK_STATUS_PENDING then StatusPending
      else if s = TASK_STATUS_RUNNING then StatusRunning
      else if s = TASK_STATUS_COMPLETED then StatusCompleted
      else if s = TASK_STATUS_FAILED then StatusFailed
      else if s = TASK_STATUS_CANCELLED then StatusCancelled
      else [])"

definition timeToProto :: "'ts timestamppb \<Rightarrow> gotime \<Rightarrow> 'ts option" where
  "timeToProto pb t = (if IsZero t then None else Some (ts_New pb t))"

definition taskToProto :: "'ts timestamppb \<Rightarrow> Task \<Rightarrow> 'ts proto_Task" where
  "taskToProto pb t =
     \<lparr>p_Id = ID t, p_Type = Type t, p_Payload = Payload t, p_Priority = ucast (Priority t),
      p_Status = statusToProto (Status t), p_DependencyIds = Dependencies t,
      p_ScheduledAt = timeToProto pb (ScheduledAt t), p_CreatedAt = timeToProto pb (CreatedAt t),
      p_UpdatedAt = timeToProto pb (UpdatedAt t), p_AttemptCount = int32_of_int (AttemptCount t),
      p_RetryLimit = int32_of_int (RetryLimit t), p_LastError = LastError t, p_Result = Result t,
      p_WorkerId = WorkerID t, p_IdempotencyKey = IdempotencyKey t\<rparr>"

subsection \<open>errors.go\<close>

datatype code = OK | NotFound | InvalidArgument | FailedPrecondition | AlreadyExists | Internal

record grpc_status =
  st_code :: code
  st_message :: string

definition status_Error :: "code \<Rightarrow> string \<Rightarrow> grpc_status" where
  "status_Error c m = \<lparr>st_code = c, st_message = m\<rparr>"

definition domainToGRPC :: "go_error \<Rightarrow> grpc_status" where
  "domainToGRPC err =
     (if errors_Is err ErrNotFound then status_Error NotFound (Error err)
      else if errors_Is err ErrInvalidArgument \<or> errors_Is err ErrInvalidPriority \<or>
              errors_Is err ErrCyclicDependency
      then status_Error InvalidArgument (Error err)
      else if errors_Is err ErrInvalidStateTransition then status_Error FailedPrecondition (Error err)
      else if errors_Is err ErrDuplicateTask then status_Error AlreadyExists (Error err)
      else status_Error Internal ''internal server error'')"

subsection \<open>server.go\<close>

text \<open>The use cases of \<^verbatim>\<open>tasks.go\<close> hold nothing but their repository.\<close>

record 'r Server =
  s_enqueue :: "'r EnqueueUseCase"
  s_get :: "'r TaskRepository"
  s_cancel :: "'r TaskRepository"
  s_republish :: "'r TaskRepository"
  s_list :: "'r TaskRepository"

definition New_Server :: "'r EnqueueUseCase \<Rightarrow> 'r TaskRepository \<Rightarrow> 'r TaskRepository \<Rightarrow> 'r TaskRepository \<Rightarrow>
    'r TaskRepository \<Rightarrow> 'r Server" where
  "New_Server enq get cancel republish lst =
     \<lparr>s_enqueue = enq, s_get = get, s_cancel = cancel, s_republish = republish, s_list = lst\<rparr>"

text \<open>The server of \<^verbatim>\<open>RunAPIGateway\<close>.\<close>

definition gateway_server :: "'r Server" where
  "gateway_server = New_Server gateway_enqueue postgres_Repo postgres_Repo postgres_Repo postgres_Repo"

definition cmd_of_request :: "'ts timestamppb \<Rightarrow> 'ts EnqueueTaskRequest \<Rightarrow> EnqueueCmd" where
  "cmd_of_request pb req =
     \<lparr>c_Type = q_Type req, c_Payload = q_Payload req, c_Priority = ucast (q_Priority req),
      c_Dependencies = q_DependencyIds req,
      c_ScheduledAt = (case q_ScheduledAt req of
          Some ts \<Rightarrow> if ts_IsValid pb ts then ts_AsTime pb ts else 0
        | None \<Rightarrow> 0),
      c_RetryLimit = int_of_int32 (q_RetryLimit req), c_IdempotencyKey = q_IdempotencyKey req\<rparr>"

definition EnqueueTask :: "'ts timestamppb \<Rightarrow> 'r Server \<Rightarrow> 'ts EnqueueTaskRequest \<Rightarrow> (grpc_status, string, 'r world) op" where
  "EnqueueTask pb s req = onError domainToGRPC (Enqueue_Handle (s_enqueue s) (cmd_of_request pb req))"

definition GetTask :: "'ts timestamppb \<Rightarrow> 'r Server \<Rightarrow> string \<Rightarrow> (grpc_status, 'ts proto_Task, 'r world) op" where
  "GetTask pb s tid =
     andThen (onError domainToGRPC (Get_Handle (s_get s) tid)) (\<lambda>t. ret (taskToProto pb t))"

definition CancelTask :: "'ts timestamppb \<Rightarrow> 'r Server \<Rightarrow> string \<Rightarrow> (grpc_status, 'ts proto_Task, 'r world) op" where
  "CancelTask pb s tid =
     andThen (onError domainToGRPC (Cancel_Handle (s_cancel s) tid)) (\<lambda>t. ret (taskToProto pb t))"

definition RepublishTask :: "'ts timestamppb \<Rightarrow> 'r Server \<Rightarrow> string \<Rightarrow> (grpc_status, 'ts proto_Task, 'r world) op" where
  "RepublishTask pb s tid =
     andThen (onError domainToGRPC (Republish_Handle (s_republish s) tid)) (\<lambda>t. ret (taskToProto pb t))"

definition filter_of_request :: "ListTasksRequest \<Rightarrow> ListFilter" where
  "filter_of_request req =
     \<lparr>f_Status = protoToStatus (l_StatusFilter req), f_Type = l_TypeFilter req,
      f_Page = int_of_int32 (l_Page req), f_PageSize = int_of_int32 (l_PageSize req)\<rparr>"

definition ListTasks :: "'ts timestamppb \<Rightarrow> 'r Server \<Rightarrow> ListTasksRequest \<Rightarrow> (grpc_status, 'ts ListTasksResponse, 'r world) op" where
  "ListTasks pb s req =
     andThen (onError domainToGRPC (List_Handle (s_list s) (filter_of_request req))) (\<lambda>(ts, total).
       ret \<lparr>lr_Tasks = map (taskToProto pb) ts, lr_Total = of_nat total\<rparr>)"

text \<open>
  The stream: the messages sent and how it ended. The outcomes of its \<^verbatim>\<open>select\<close> and of \<^verbatim>\<open>Send\<close> are
  given; a tick comes with what the rest of the system did to the world before it. What happens
  outside the \<^verbatim>\<open>select\<close> can be seen by no branch of it: the context of the process
  (\<open>ServerCtxDone\<close>) is not the one of the call, and the loop goes on waiting. The stream is still
  open when the outcomes are used up.
\<close>

datatype 'r stream_event = StreamCtxDone | ServerCtxDone | StreamTicker "'r world \<Rightarrow> 'r world" "go_error option"

datatype stream_end = StreamOK | StreamStatus grpc_status | StreamSendError go_error | StreamOpen

definition io_EOF :: go_error where
  "io_EOF = Opaque ''EOF''"

fun stream_loop :: "'ts timestamppb \<Rightarrow> 'r Server \<Rightarrow> string \<Rightarrow> 'r stream_event list \<Rightarrow> 'ts proto_Task list \<Rightarrow> 'r world \<Rightarrow>
    (stream_end \<times> 'ts proto_Task list) \<times> 'r world" where
  "stream_loop pb s tid [] sent w = ((StreamOpen, sent), w)"
| "stream_loop pb s tid (StreamCtxDone # es) sent w = ((StreamOK, sent), w)"
| "stream_loop pb s tid (ServerCtxDone # es) sent w = stream_loop pb s tid es sent w"
| "stream_loop pb s tid (StreamTicker others send # es) sent w =
     (case Get_Handle (s_get s) tid (others w) of
        (Inl err, w1) \<Rightarrow> ((StreamStatus (domainToGRPC err), sent), w1)
      | (Inr task, w1) \<Rightarrow>
          (case send of
             Some err \<Rightarrow> ((StreamSendError err, sent), w1)
           | None \<Rightarrow>
               if Status task = StatusCompleted \<or> Status task = StatusFailed \<or> Status task = StatusCancelled
               then ((StreamOK, sent @ [taskToProto pb task]), w1)
               else stream_loop pb s tid es (sent @ [taskToProto pb task]) w1))"

definition StreamTaskUpdates :: "'ts timestamppb \<Rightarrow> 'r Server \<Rightarrow> string \<Rightarrow> go_error option \<Rightarrow> 'r stream_event list \<Rightarrow> 'r world \<Rightarrow>
    (stream_end \<times> 'ts proto_Task list) \<times> 'r world" where
  "StreamTaskUpdates pb s tid send es w =
     (case Get_Handle (s_get s) tid w of
        (Inl err, w1) \<Rightarrow> ((StreamStatus (domainToGRPC err), []), w1)
      | (Inr task, w1) \<Rightarrow>
          (case send of
             Some err \<Rightarrow> ((if err = io_EOF then StreamOK else StreamSendError err, []), w1)
           | None \<Rightarrow> stream_loop pb s tid es [taskToProto pb task] w1))"

subsection \<open>interceptors.go\<close>

text \<open>How a call of a unary handler ends: it returns a response or a status, or it panics.\<close>

datatype 'a call = Returned "grpc_status + 'a" | Panicked string

type_synonym ('q, 'a, 'w) UnaryHandler = "'q \<Rightarrow> 'w \<Rightarrow> 'a call \<times> 'w"
type_synonym ('q, 'a, 'w) UnaryServerInterceptor = "'q \<Rightarrow> ('q, 'a, 'w) UnaryHandler \<Rightarrow> 'w \<Rightarrow> 'a call \<times> 'w"

definition RecoveryInterceptor :: "('q, 'a, 'w) UnaryServerInterceptor" where
  "RecoveryInterceptor req handler w =
     (case handler req w of
        (Panicked r, w1) \<Rightarrow> (Returned (Inl (status_Error Internal ''internal server error'')), w1)
      | (Returned x, w1) \<Rightarrow> (Returned x, w1))"

definition log_level_of :: "code \<Rightarrow> slog_level" where
  "log_level_of c = (if c \<noteq> OK \<and> c \<noteq> NotFound \<and> c \<noteq> InvalidArgument then LevelError else LevelInfo)"

text \<open>The line the interceptor logs is added to a log, by the function \<open>write\<close> on the state.\<close>

definition LoggingInterceptor :: "((slog_level \<times> code) \<Rightarrow> 'w \<Rightarrow> 'w) \<Rightarrow> ('q, 'a, 'w) UnaryServerInterceptor" where
  "LoggingInterceptor write req handler w =
     (case handler req w of
        (Panicked r, w1) \<Rightarrow> (Panicked r, w1)
      | (Returned x, w1) \<Rightarrow>
          (let c = (case x of Inl st \<Rightarrow> st_code st | Inr _ \<Rightarrow> OK) in
           (Returned x, write (log_level_of c, c) w1)))"

fun chain_loop :: "('q, 'a, 'w) UnaryServerInterceptor list \<Rightarrow> nat \<Rightarrow> ('q, 'a, 'w) UnaryHandler \<Rightarrow> ('q, 'a, 'w) UnaryHandler" where
  "chain_loop is 0 current = current"
| "chain_loop is (Suc i) current = chain_loop is i (\<lambda>req. (is ! i) req current)"

definition ChainUnaryInterceptors :: "('q, 'a, 'w) UnaryServerInterceptor list \<Rightarrow> ('q, 'a, 'w) UnaryServerInterceptor" where
  "ChainUnaryInterceptors is req handler w = chain_loop is (length is) handler req w"

subsection \<open>Laws\<close>

text \<open>
  Errors map to codes by their cause, however often they were wrapped on the way: a missing
  task is \<^verbatim>\<open>NotFound\<close>, bad input \<^verbatim>\<open>InvalidArgument\<close>, a forbidden transition
  \<^verbatim>\<open>FailedPrecondition\<close>, a duplicate \<^verbatim>\<open>AlreadyExists\<close>, and everything else \<^verbatim>\<open>Internal\<close>, with a
  text that tells nothing of the cause.
\<close>

lemma domainToGRPC_by_cause:
  "st_code (domainToGRPC e) = (case root_cause e of
       ErrNotFound \<Rightarrow> NotFound
     | ErrInvalidArgument \<Rightarrow> InvalidArgument | ErrInvalidPriority \<Rightarrow> InvalidArgument
     | ErrCyclicDependency \<Rightarrow> InvalidArgument
     | ErrInvalidStateTransition \<Rightarrow> FailedPrecondition
     | ErrDuplicateTask \<Rightarrow> AlreadyExists
     | _ \<Rightarrow> Internal) \<and>
   st_message (domainToGRPC e) =
     (if st_code (domainToGRPC e) = Internal then ''internal server error'' else Error e)"
  by (simp add: domainToGRPC_def status_Error_def errors_Is_sentinel split: go_error.splits)

lemma domainToGRPC_NotFound: "root_cause e = ErrNotFound \<Longrightarrow> st_code (domainToGRPC e) = NotFound"
  by (simp add: domainToGRPC_def status_Error_def errors_Is_sentinel)

lemma domainToGRPC_Internal: "\<not> domain_sentinel (root_cause e) \<Longrightarrow> st_code (domainToGRPC e) = Internal"
  by (cases "root_cause e") (simp_all add: domainToGRPC_def status_Error_def errors_Is_sentinel)

text \<open>
  Statuses survive the wire: every status of a stored task maps to its own enum value and
  back, and an unknown enum value, like the unspecified one, filters nothing.
\<close>

lemma status_roundtrip:
  "protoToStatus (statusToProto s) = (if known_status s then s else []) \<and>
   (statusToProto (protoToStatus p) = (if unat p \<le> 5 then p else TASK_STATUS_UNSPECIFIED))"
proof
  show "protoToStatus (statusToProto s) = (if known_status s then s else [])"
    by (simp add: statusToProto_def protoToStatus_def known_status_def TASK_STATUS_UNSPECIFIED_def
        TASK_STATUS_PENDING_def TASK_STATUS_RUNNING_def TASK_STATUS_COMPLETED_def TASK_STATUS_FAILED_def
        TASK_STATUS_CANCELLED_def)
  have small: "p \<in> {0, 1, 2, 3, 4, 5}" if "unat p \<le> 5"
  proof -
    have "p = word_of_nat (unat p)" by simp
    with that obtain n where p: "p = word_of_nat n" "n \<le> 5" by blast
    then have "n = 0 \<or> n = 1 \<or> n = 2 \<or> n = 3 \<or> n = 4 \<or> n = 5" by auto
    then show ?thesis unfolding p(1) by auto
  qed
  have un: "statusToProto [] = TASK_STATUS_UNSPECIFIED" by (simp add: statusToProto_def status_defs)
  show "statusToProto (protoToStatus p) = (if unat p \<le> 5 then p else TASK_STATUS_UNSPECIFIED)"
  proof (cases "unat p \<le> 5")
    case True
    with small un show ?thesis
      by (auto simp: statusToProto_def protoToStatus_def TASK_STATUS_UNSPECIFIED_def
        TASK_STATUS_PENDING_def TASK_STATUS_RUNNING_def TASK_STATUS_COMPLETED_def TASK_STATUS_FAILED_def
        TASK_STATUS_CANCELLED_def)
  next
    case False
    then have "p \<noteq> 1" "p \<noteq> 2" "p \<noteq> 3" "p \<noteq> 4" "p \<noteq> 5" by auto
    with False un show ?thesis
      by (simp add: protoToStatus_def TASK_STATUS_PENDING_def TASK_STATUS_RUNNING_def
          TASK_STATUS_COMPLETED_def TASK_STATUS_FAILED_def TASK_STATUS_CANCELLED_def)
  qed
qed

lemma chain_loop_take:
  "n \<le> length is \<Longrightarrow> chain_loop is n current = foldr (\<lambda>i h req. i req h) (take n is) current"
  by (induction n arbitrary: current) (simp_all add: take_Suc_conv_app_nth)

text \<open>
  The loop that chains interceptors from the last to the first nests them as listed: the
  first interceptor is the outermost, the handler the innermost.
\<close>

lemma ChainUnaryInterceptors_nested:
  "ChainUnaryInterceptors is req handler = foldr (\<lambda>i h req. i req h) is handler req"
  by (rule ext) (simp add: ChainUnaryInterceptors_def chain_loop_take)

text \<open>
  No request brings the server down: under the chain \<^verbatim>\<open>Serve\<close> installs, a handler that
  panics is answered with \<^verbatim>\<open>Internal\<close>, and one that returns is answered with its own result.
\<close>

lemma served_never_panics:
  "fst (ChainUnaryInterceptors [RecoveryInterceptor, LoggingInterceptor write] req handler w) =
     Returned (case fst (handler req w) of
        Returned x \<Rightarrow> x | Panicked _ \<Rightarrow> Inl (status_Error Internal ''internal server error''))"
  by (simp add: ChainUnaryInterceptors_def RecoveryInterceptor_def LoggingInterceptor_def
      numeral_2_eq_2 Let_def split: prod.splits call.splits)

text \<open>
  Priorities wrap at the wire: the conversion of the request's 32-bit priority to the 8-bit
  one of the domain drops the high bits before it is validated, so priority 256 is enqueued as
  priority 0, and adding 256 to any priority makes no difference.
\<close>

lemma request_priority_wraps:
  "cmd_of_request pb (req\<lparr>q_Priority := q_Priority req + 256\<rparr>) = cmd_of_request pb req"
proof -
  have "(ucast (p + 256) :: 8 word) = ucast p" for p :: "32 word"
    by (simp add: word_uint_eq_iff unsigned_ucast_eq take_bit_eq_mod uint_word_ariths mod_mod_cancel)
  then show ?thesis by (simp add: cmd_of_request_def)
qed

lemma GetByID_missing:
  assumes "no_faults w" "key w tid = Some k" "view w k = None"
  shows "GetByID tid w = (Inl (errorf ''postgres: get: '' ErrNotFound), w)"
proof -
  have "select_task k (db w) = None" using assms(3) by (simp add: view_def view_db_def)
  then have "scanTask (select_task k (db w)) w = (Inl ErrNotFound, w)"
    using assms(1) by (simp add: scanTask_def op_defs)
  then show ?thesis
    by (simp add: GetByID_def op_defs toUUID_total [OF assms(2)] tx_Begin_total [OF assms(1)])
qed

text \<open>
  C36. What a client sees of a lookup: with a driver that does not fail a stored task is returned
  as it is stored, an identifier no task has is \<^verbatim>\<open>NotFound\<close>, and one that is not a UUID is
  \<^verbatim>\<open>Internal\<close>, although it is the client's mistake.
\<close>

theorem GetTask_answers:
  assumes "no_faults w"
    and "\<forall>e. uuid_Parse (lib w) tid = Inl e \<longrightarrow> \<not> domain_sentinel (root_cause e)"
  shows "case key w tid of
       None \<Rightarrow> (\<exists>st w'. GetTask pb gateway_server tid w = (Inl st, w') \<and> st_code st = Internal)
     | Some k \<Rightarrow> (case view w k of
           None \<Rightarrow> (\<exists>st w'. GetTask pb gateway_server tid w = (Inl st, w') \<and> st_code st = NotFound)
         | Some t \<Rightarrow> GetTask pb gateway_server tid w = (Inr (taskToProto pb t), w))"
proof -
  have g: "GetTask pb gateway_server tid =
      andThen (onError domainToGRPC (GetByID tid)) (\<lambda>t. ret (taskToProto pb t))"
    by (simp add: GetTask_def Get_Handle_def gateway_server_def New_Server_def)
  show ?thesis
  proof (cases "key w tid")
    case None
    then obtain e where e: "uuid_Parse (lib w) tid = Inl e" by (auto simp: key_def split: sum.splits)
    then have "GetByID tid w = (Inl (errorf (''invalid task id '' @ fmt_q (lib w) tid @ '': '') e), w)"
      by (simp add: GetByID_def toUUID_def op_defs)
    then show ?thesis using None e assms(2) by (simp add: g op_defs domainToGRPC_Internal)
  next
    case (Some k)
    then show ?thesis
      using GetByID_missing [OF assms(1) Some] GetByID_total [OF assms(1) Some]
      by (cases "view w k") (simp_all add: g op_defs domainToGRPC_NotFound)
  qed
qed

subsection \<open>Following a task\<close>

text \<open>What the view holds under a key at each poll among the outcomes, and the world after them.\<close>

fun polls :: "'r world \<Rightarrow> uuid \<Rightarrow> 'r stream_event list \<Rightarrow> Task option list" where
  "polls w k [] = []"
| "polls w k (StreamTicker others send # es) = view (others w) k # polls (others w) k es"
| "polls w k (e # es) = polls w k es"

fun world_after :: "'r world \<Rightarrow> 'r stream_event list \<Rightarrow> 'r world" where
  "world_after w [] = w"
| "world_after w (StreamTicker others send # es) = world_after (others w) es"
| "world_after w (e # es) = world_after w es"

definition finished :: "Task \<Rightarrow> bool" where
  "finished t \<longleftrightarrow> Status t \<in> {StatusCompleted, StatusFailed, StatusCancelled}"

text \<open>A change of the world that leaves the driver sound and the identifiers as they are.\<close>

definition benign :: "('r world \<Rightarrow> 'r world) \<Rightarrow> bool" where
  "benign f \<longleftrightarrow> (\<forall>w. no_faults w \<longrightarrow> no_faults (f w) \<and> key (f w) = key w)"

text \<open>An outcome after which the client is still there and was sent what a poll found.\<close>

fun undisturbed :: "'r stream_event \<Rightarrow> bool" where
  "undisturbed StreamCtxDone = False"
| "undisturbed ServerCtxDone = True"
| "undisturbed (StreamTicker others send) \<longleftrightarrow> benign others \<and> send = None"

lemma Get_total:
  "no_faults w \<Longrightarrow> key w tid = Some k \<Longrightarrow> view w k = Some t \<Longrightarrow> Get_Handle (s_get gateway_server) tid w = (Inr t, w)"
  by (simp add: Get_Handle_def gateway_server_def New_Server_def GetByID_total)

lemma world_after_benign:
  "no_faults w \<Longrightarrow> list_all undisturbed es \<Longrightarrow> no_faults (world_after w es) \<and> key (world_after w es) = key w"
proof (induction es arbitrary: w)
  case (Cons e es)
  then show ?case by (cases e) (auto simp: benign_def)
qed simp

text \<open>The loop over undisturbed outcomes that find the task unfinished, and what is left of them.\<close>

lemma stream_loop_follows:
  assumes "no_faults w" "key w tid = Some k" "list_all undisturbed es" "polls w k es = map Some us"
    and "list_all (\<lambda>t. \<not> finished t) us"
  shows "stream_loop pb gateway_server tid (es @ rest) sent w =
     stream_loop pb gateway_server tid rest (sent @ map (taskToProto pb) us) (world_after w es)"
  using assms
proof (induction es arbitrary: w us sent)
  case (Cons e es)
  show ?case
  proof (cases e)
    case (StreamTicker others send)
    with Cons.prems obtain t ts where us: "us = t # ts" "view (others w) k = Some t" "polls (others w) k es = map Some ts"
      and b: "benign others" "send = None" by auto
    have w: "no_faults (others w)" "key (others w) tid = Some k" using Cons.prems(1,2) b(1) by (simp_all add: benign_def)
    have "Get_Handle (s_get gateway_server) tid (others w) = (Inr t, others w)" using w us(2) by (rule Get_total)
    then show ?thesis
      using Cons.IH [OF w _ us(3)] Cons.prems(3,5) StreamTicker us(1) b(2) by (simp add: finished_def)
  qed (use Cons in simp_all)
qed simp

lemma stream_follows_prefix:
  assumes "no_faults w" "key w tid = Some k" "view w k = Some t" "list_all undisturbed es"
    and "polls w k es = map Some us" "list_all (\<lambda>t. \<not> finished t) us"
  shows "StreamTaskUpdates pb gateway_server tid None (es @ rest) w =
     stream_loop pb gateway_server tid rest (map (taskToProto pb) (t # us)) (world_after w es)"
  by (simp add: StreamTaskUpdates_def Get_total [OF assms(1-3)] stream_loop_follows [OF assms(1,2,4-6)])

text \<open>
  C35. A stream follows a stored task: with a driver that does not fail, the client is sent the task
  as it is stored at the call and then at every poll, and as long as each poll finds the task
  unfinished, each message is sent and the client stays, the stream stays open, whatever the rest
  of the system does to the tables. Then it ends by what comes next: without an error when the
  client's context ends, or right after a poll that sends a completed, failed or cancelled task;
  with \<^verbatim>\<open>NotFound\<close> when the task was removed; with the error of a lookup or of \<^verbatim>\<open>Send\<close> that fails.
\<close>

theorem stream_follows:
  assumes "no_faults w" "key w tid = Some k" "view w k = Some t" "list_all undisturbed es"
    and "polls w k es = map Some us" "list_all (\<lambda>t. \<not> finished t) us"
    and "stream = (\<lambda>rest. fst (StreamTaskUpdates pb gateway_server tid None (es @ rest) w))"
    and "sent = map (taskToProto pb) (t # us)" "w' = world_after w es"
  shows "stream [] = (StreamOpen, sent) \<and> stream (StreamCtxDone # rest) = (StreamOK, sent) \<and>
     (\<forall>f t'. benign f \<and> view (f w') k = Some t' \<and> finished t' \<longrightarrow>
        stream (StreamTicker f None # rest) = (StreamOK, sent @ [taskToProto pb t'])) \<and>
     (\<forall>f t' e. benign f \<and> view (f w') k = Some t' \<longrightarrow>
        stream (StreamTicker f (Some e) # rest) = (StreamSendError e, sent)) \<and>
     (\<forall>f send. benign f \<and> view (f w') k = None \<longrightarrow>
        (\<exists>st. stream (StreamTicker f send # rest) = (StreamStatus st, sent) \<and> st_code st = NotFound)) \<and>
     (\<forall>f send e w2. GetByID tid (f w') = (Inl e, w2) \<longrightarrow>
        stream (StreamTicker f send # rest) = (StreamStatus (domainToGRPC e), sent))"
proof -
  have s: "stream r = fst (stream_loop pb gateway_server tid r sent w')" for r
    by (simp add: assms(7-9) stream_follows_prefix [OF assms(1-6)])
  have w': "no_faults (f w') \<and> key (f w') tid = Some k" if "benign f" for f
    using world_after_benign [OF assms(1,4)] that assms(2) by (simp add: assms(9) benign_def)
  have lookup: "Get_Handle (s_get gateway_server) tid v = GetByID tid v" for v :: "'a world"
    by (simp add: Get_Handle_def gateway_server_def New_Server_def)
  have "stream (StreamTicker f send # rest) = (StreamStatus (domainToGRPC e), sent)"
    if "GetByID tid (f w') = (Inl e, w2)" for f send e w2
    using that by (simp add: s lookup)
  moreover have "GetByID tid (f w') = (Inl (errorf ''postgres: get: '' ErrNotFound), f w')"
    if "benign f" "view (f w') k = None" for f
    using w' [OF that(1)] that(2) by (intro GetByID_missing) simp_all
  moreover have "st_code (domainToGRPC (errorf ''postgres: get: '' ErrNotFound)) = NotFound"
    by (simp add: domainToGRPC_NotFound)
  moreover have "GetByID tid (f w') = (Inr t', f w')" if "benign f" "view (f w') k = Some t'" for f t'
    using w' [OF that(1)] that(2) by (intro GetByID_total) simp_all
  ultimately show ?thesis by (auto simp: s lookup finished_def)
qed

end
