(* ===== verification/Lifecycle.thy ===== *)
theory Lifecycle
  imports Bootstrap Grpc_Server
begin

text \<open>
  The processes from start to exit: the \<^verbatim>\<open>main\<close> functions (\<^verbatim>\<open>src/cmd\<close>), the signal context
  (\<^verbatim>\<open>src/internal/platform/shutdown\<close>), the gRPC and the metrics server (\<^verbatim>\<open>Serve\<close> of \<^verbatim>\<open>grpcserver\<close> and of
  \<^verbatim>\<open>prom\<close>), and the groups of goroutines the \<^verbatim>\<open>Run\<close> functions of \<^verbatim>\<open>src/internal/app\<close> start. A service is
  what a goroutine comes to, as a function of whether its context is done. The libraries are
  parameters: \<^verbatim>\<open>errgroup\<close> (the derived context and \<^verbatim>\<open>Wait\<close>), \<^verbatim>\<open>http.Server\<close> and \<^verbatim>\<open>grpc.Server\<close>; what their
  documentation says of them is in \<open>errgroup_ok\<close>, \<open>http_server_ok\<close> and \<open>grpc_server_ok\<close>.
\<close>

datatype service_end = ServiceReturned "go_error + unit" | ServicePanicked | ServiceRunning

type_synonym service = "bool \<Rightarrow> service_end"

text \<open>\<^verbatim>\<open>errgroup.WithContext\<close>, \<^verbatim>\<open>Go\<close> for every service, \<^verbatim>\<open>Wait\<close>: from the outer context and the services to the end of \<^verbatim>\<open>Wait\<close>.\<close>

type_synonym errgroup = "bool \<Rightarrow> service list \<Rightarrow> halt + unit"

subsection \<open>Signals\<close>

datatype os_signal = SIGINT | SIGTERM | SIGHUP | SIGUSR1 | SIGUSR2

definition NotifyContext :: "bool \<Rightarrow> os_signal list \<Rightarrow> bool" where
  "NotifyContext parent received \<longleftrightarrow> parent \<or> (\<exists>s \<in> set received. s \<in> {SIGINT, SIGTERM})"

subsection \<open>The servers\<close>

definition http_ErrServerClosed :: go_error where
  "http_ErrServerClosed = Opaque ''http: Server closed''"

text \<open>
  \<^verbatim>\<open>prom.Serve\<close>: \<^verbatim>\<open>ListenAndServe\<close> is a function of whether \<^verbatim>\<open>Shutdown\<close> was called, which the second
  goroutine does once the context is done; \<open>None\<close> while it is serving.
\<close>

definition prom_Serve :: "(bool \<Rightarrow> go_error option) \<Rightarrow> service" where
  "prom_Serve listenAndServe cancelled =
     (case listenAndServe cancelled of
        None \<Rightarrow> ServiceRunning
      | Some err \<Rightarrow> ServiceReturned (if err \<noteq> http_ErrServerClosed then Inl err else Inr ()))"

text \<open>
  \<^verbatim>\<open>grpcserver.Serve\<close>: \<^verbatim>\<open>net.Listen\<close>, then \<^verbatim>\<open>srv.Serve\<close>, a function of whether \<^verbatim>\<open>GracefulStop\<close> was called.
\<close>

definition grpc_Serve :: "go_error + unit \<Rightarrow> (bool \<Rightarrow> (go_error + unit) option) \<Rightarrow> service" where
  "grpc_Serve listen srv_Serve cancelled =
     (case listen of
        Inl err \<Rightarrow> ServiceReturned (Inl err)
      | Inr _ \<Rightarrow> (case srv_Serve cancelled of None \<Rightarrow> ServiceRunning | Some r \<Rightarrow> ServiceReturned r))"

subsection \<open>The groups\<close>

text \<open>The outcomes of the \<^verbatim>\<open>select\<close> of a ticker loop: \<open>n\<close> ticks, then the context if it is done.\<close>

definition ticks :: "nat \<Rightarrow> bool \<Rightarrow> loop_event list" where
  "ticks n cancelled = replicate n TickerC @ (if cancelled then [CtxDone] else [])"

definition loop_service :: "loop_end \<Rightarrow> service_end" where
  "loop_service e = (case e of
       LoopReturned \<Rightarrow> ServiceReturned (Inr ()) | TickerPanic \<Rightarrow> ServicePanicked | LoopRunning \<Rightarrow> ServiceRunning)"

definition scheduler_services :: "config_Scheduler \<Rightarrow> 'r redis_client \<Rightarrow> nat \<Rightarrow> nat \<Rightarrow> (bool \<Rightarrow> go_error option) \<Rightarrow>
    'r world \<Rightarrow> service list" where
  "scheduler_services cfg rc n m listenAndServe w =
     [\<lambda>cancelled. loop_service (fst (Loop (scheduler_loop cfg rc) (ticks n cancelled) w)),
      \<lambda>cancelled. loop_service (fst (Heartbeat_Run (scheduler_monitor cfg) (ticks m cancelled) w)),
      prom_Serve listenAndServe]"

text \<open>The worker's deliveries, each with the number of its call and what its \<^verbatim>\<open>select\<close> gave.\<close>

definition deliveries_until :: "(Delivery \<times> nat \<times> exec_event list) list \<Rightarrow> bool \<Rightarrow> run_event list" where
  "deliveries_until ds cancelled = map (\<lambda>(d, call, xs). Delivered d call xs) ds @ (if cancelled then [RunCtxDone] else [])"

definition worker_services :: "config_Worker \<Rightarrow> Registry \<Rightarrow> 'r redis_client \<Rightarrow> (Delivery \<times> nat \<times> exec_event list) list \<Rightarrow>
    (bool \<Rightarrow> go_error option) \<Rightarrow> 'r world \<Rightarrow> service list" where
  "worker_services cfg registry rc ds listenAndServe w =
     [\<lambda>cancelled. (case fst (worker_Run cfg registry rc (deliveries_until ds cancelled) w) of
         Inl err \<Rightarrow> ServiceReturned (Inl err)
       | Inr returned \<Rightarrow> if returned then ServiceReturned (Inr ()) else ServiceRunning),
      prom_Serve listenAndServe]"

definition gateway_services :: "go_error + unit \<Rightarrow> (bool \<Rightarrow> (go_error + unit) option) \<Rightarrow> (bool \<Rightarrow> go_error option) \<Rightarrow> service list" where
  "gateway_services listen srv_Serve listenAndServe = [grpc_Serve listen srv_Serve, prom_Serve listenAndServe]"

subsection \<open>main\<close>

datatype proc_end = Exited nat | Crashed | StillRunning

text \<open>The end of a \<^verbatim>\<open>main\<close>: exit status 1 for an error other than \<^verbatim>\<open>context.Canceled\<close>.\<close>

definition main_end :: "halt + unit \<Rightarrow> proc_end" where
  "main_end r = (case r of
       Inr _ \<Rightarrow> Exited 0
     | Inl (Err err) \<Rightarrow> if \<not> errors_Is err ContextCanceled then Exited 1 else Exited 0
     | Inl Blocked \<Rightarrow> StillRunning
     | Inl Panicking \<Rightarrow> Crashed)"

definition scheduler_main :: "env \<Rightarrow> errgroup \<Rightarrow> os_signal list \<Rightarrow> 'r redis_client \<Rightarrow> nat \<Rightarrow> nat \<Rightarrow>
    (bool \<Rightarrow> go_error option) \<Rightarrow> 'r world \<Rightarrow> boot \<Rightarrow> proc_end \<times> boot" where
  "scheduler_main e grp received rc n m listenAndServe w b =
     (let cfg = LoadScheduler e;
          ctx = NotifyContext False received in
      case RunScheduler cfg (\<lambda>b. (grp ctx (scheduler_services cfg rc n m listenAndServe w), b)) b of
        (r, b1) \<Rightarrow> (main_end r, b1))"

definition worker_main :: "env \<Rightarrow> errgroup \<Rightarrow> os_signal list \<Rightarrow> 'r redis_client \<Rightarrow>
    (Delivery \<times> nat \<times> exec_event list) list \<Rightarrow> (bool \<Rightarrow> go_error option) \<Rightarrow> 'r world \<Rightarrow> boot \<Rightarrow> proc_end \<times> boot" where
  "worker_main e grp received rc ds listenAndServe w b =
     (let cfg = LoadWorker e in
      case worker_registry (lib w) of
        Inl p \<Rightarrow> (Crashed, b)
      | Inr registry \<Rightarrow>
          (let ctx = NotifyContext False received in
           case RunWorker cfg (\<lambda>b. (grp ctx (worker_services cfg registry rc ds listenAndServe w), b)) b of
             (r, b1) \<Rightarrow> (main_end r, b1)))"

definition apigateway_main :: "env \<Rightarrow> errgroup \<Rightarrow> os_signal list \<Rightarrow> go_error + unit \<Rightarrow>
    (bool \<Rightarrow> (go_error + unit) option) \<Rightarrow> (bool \<Rightarrow> go_error option) \<Rightarrow> boot \<Rightarrow> proc_end \<times> boot" where
  "apigateway_main e grp received listen srv_Serve listenAndServe b =
     (let cfg = LoadAPIGateway e;
          ctx = NotifyContext False received in
      case RunAPIGateway cfg (\<lambda>b. (grp ctx (gateway_services listen srv_Serve listenAndServe), b)) b of
        (r, b1) \<Rightarrow> (main_end r, b1))"

subsection \<open>What the libraries promise\<close>

definition service_failed :: "service_end \<Rightarrow> bool" where
  "service_failed e \<longleftrightarrow> (\<exists>err. e = ServiceReturned (Inl err))"

text \<open>
  \<^verbatim>\<open>errgroup\<close>: the derived context is done when the outer one is, or once a function has returned
  an error; \<^verbatim>\<open>Wait\<close> blocks until all have returned and then returns the first error, if any. A
  goroutine that panics takes the process with it.
\<close>

definition errgroup_ok :: "errgroup \<Rightarrow> bool" where
  "errgroup_ok grp \<longleftrightarrow> (\<forall>ctx ss.
     let cancelled = ctx \<or> (\<exists>s \<in> set ss. service_failed (s False)); ends = (\<lambda>s. s cancelled) ` set ss in
     (ServicePanicked \<in> ends \<longrightarrow> grp ctx ss = Inl Panicking) \<and>
     (ServicePanicked \<notin> ends \<longrightarrow> ServiceRunning \<in> ends \<longrightarrow> grp ctx ss = Inl Blocked) \<and>
     (ends \<subseteq> {ServiceReturned (Inr ())} \<longrightarrow> grp ctx ss = Inr ()) \<and>
     (ends \<subseteq> range ServiceReturned \<longrightarrow> (\<exists>e \<in> ends. service_failed e) \<longrightarrow>
        (\<exists>err. grp ctx ss = Inl (Err err) \<and> ServiceReturned (Inl err) \<in> ends)))"

text \<open>\<^verbatim>\<open>http.Server\<close>: \<^verbatim>\<open>Shutdown\<close> makes a serving \<^verbatim>\<open>ListenAndServe\<close> return \<^verbatim>\<open>ErrServerClosed\<close>; one that has failed, has.\<close>

definition http_server_ok :: "(bool \<Rightarrow> go_error option) \<Rightarrow> bool" where
  "http_server_ok las \<longleftrightarrow> las True = (case las False of None \<Rightarrow> Some http_ErrServerClosed | Some err \<Rightarrow> Some err)"

text \<open>\<^verbatim>\<open>grpc.Server\<close>: \<^verbatim>\<open>GracefulStop\<close> makes a serving \<^verbatim>\<open>Serve\<close> return nil, after the calls still open have ended.\<close>

definition grpc_server_ok :: "bool \<Rightarrow> (bool \<Rightarrow> (go_error + unit) option) \<Rightarrow> bool" where
  "grpc_server_ok open_calls srv \<longleftrightarrow>
     srv True = (case srv False of None \<Rightarrow> if open_calls then None else Some (Inr ()) | Some r \<Rightarrow> Some r)"

text \<open>The calls of \<^verbatim>\<open>StreamTaskUpdates\<close> under way: identifier, outcome of the first \<^verbatim>\<open>Send\<close>, outcomes of the \<^verbatim>\<open>select\<close>.\<close>

definition streams_open :: "'ts timestamppb \<Rightarrow> (string \<times> go_error option \<times> 'r stream_event list) list \<Rightarrow> 'r world \<Rightarrow> bool" where
  "streams_open pb calls w \<longleftrightarrow>
     (\<exists>(tid, send, es) \<in> set calls. fst (fst (StreamTaskUpdates pb gateway_server tid send es w)) = StreamOpen)"

text \<open>A start in which no library call fails.\<close>

definition boots :: "boot \<Rightarrow> bool" where
  "boots b \<longleftrightarrow> (\<forall>n. outcomes b n = None)"

subsection \<open>How services end\<close>

lemma ticks_done [simp]: "CtxDone \<in> set (ticks n cancelled) \<longleftrightarrow> cancelled"
  by (auto simp: ticks_def)

lemma loop_service_done:
  "0 < sint (su_pollInterval s) \<Longrightarrow> loop_service (fst (Loop s (ticks n True) w)) = ServiceReturned (Inr ())"
  "0 < sint (hb_interval h) \<Longrightarrow> loop_service (fst (Heartbeat_Run h (ticks n True) w)) = ServiceReturned (Inr ())"
  using Loop_returns_iff [of s "ticks n True" w] Heartbeat_Run_returns_iff [of h "ticks n True" w]
  by (simp_all add: loop_service_def)

lemma loop_service_panics:
  "\<not> 0 < sint (su_pollInterval s) \<Longrightarrow> loop_service (fst (Loop s es w)) = ServicePanicked"
  "\<not> 0 < sint (hb_interval h) \<Longrightarrow> loop_service (fst (Heartbeat_Run h es w)) = ServicePanicked"
  by (simp_all add: loop_service_def Loop_def Heartbeat_Run_def time_NewTicker_def)

lemma prom_Serve_done: "http_server_ok las \<Longrightarrow> las False = None \<Longrightarrow> prom_Serve las True = ServiceReturned (Inr ())"
  by (simp add: prom_Serve_def http_server_ok_def)

lemma prom_Serve_failed:
  "http_server_ok las \<Longrightarrow> las False = Some err \<Longrightarrow> err \<noteq> http_ErrServerClosed \<Longrightarrow>
     prom_Serve las cancelled = ServiceReturned (Inl err)"
  by (cases cancelled) (simp_all add: prom_Serve_def http_server_ok_def)

lemma grpc_Serve_done:
  "grpc_server_ok False srv \<Longrightarrow> srv False = None \<Longrightarrow> grpc_Serve (Inr ()) srv True = ServiceReturned (Inr ())"
  by (simp add: grpc_Serve_def grpc_server_ok_def)

lemma process_returns:
  assumes "\<exists>e \<in> set xs. e \<noteq> HbTicker"
  shows "fst (process u d call xs w)"
proof -
  have "await u task r xs v \<noteq> (None, v')" for task r v v'
    using await_returns_iff [of u task r xs v] assms by auto
  then show ?thesis by (auto simp: process_def Let_def split: prod.splits sum.splits option.splits)
qed

lemma Execute_Run_returns:
  "list_all (\<lambda>(d, call, xs). \<exists>e \<in> set xs. e \<noteq> HbTicker) ds \<Longrightarrow> fst (Execute_Run u (deliveries_until ds True) w)"
proof (induction ds arbitrary: w)
  case Nil
  then show ?case by (simp add: deliveries_until_def)
next
  case (Cons x ds)
  obtain d call xs where x: "x = (d, call, xs)" by (cases x) auto
  have "fst (process u d call xs w)" using Cons.prems by (intro process_returns) (simp add: x)
  then obtain w1 where "process u d call xs w = (True, w1)" by (cases "process u d call xs w") simp
  with Cons x show ?case by (simp add: deliveries_until_def)
qed

lemma worker_service_done:
  assumes "list_all (\<lambda>(d, call, xs). \<exists>e \<in> set xs. e \<noteq> HbTicker) ds"
    and "\<not> isl (fst (Subscribe rc taskStreamConst workerGroupName w))"
  shows "fst (worker_Run cfg reg rc (deliveries_until ds True) w) = Inr True"
proof -
  obtain w1 where "Subscribe rc taskStreamConst workerGroupName w = (Inr (), w1)"
    using assms(2) by (cases "Subscribe rc taskStreamConst workerGroupName w"; cases "fst (Subscribe rc taskStreamConst workerGroupName w)") auto
  then show ?thesis
    using Execute_Run_returns [OF assms(1), of "worker_execute cfg reg rc" w1]
    by (cases "Execute_Run (worker_execute cfg reg rc) (deliveries_until ds True) w1") (simp add: worker_Run_def)
qed

subsection \<open>How groups end\<close>

lemma group_clean:
  assumes "errgroup_ok grp" "list_all (\<lambda>s. s True = ServiceReturned (Inr ())) ss"
  shows "grp True ss = Inr ()"
  using assms(1) [unfolded errgroup_ok_def, rule_format, of True ss] assms(2)
  by (auto simp: Let_def list_all_iff)

lemma group_blocked:
  assumes "errgroup_ok grp" "list_all (\<lambda>s. s True \<noteq> ServicePanicked) ss" "list_ex (\<lambda>s. s True = ServiceRunning) ss"
  shows "grp True ss = Inl Blocked"
proof -
  have "ServicePanicked \<notin> (\<lambda>s. s True) ` set ss" "ServiceRunning \<in> (\<lambda>s. s True) ` set ss"
    using assms(2,3) by (auto simp: list_all_iff list_ex_iff image_iff) (metis+)?
  then show ?thesis using assms(1) [unfolded errgroup_ok_def, rule_format, of True ss] by (auto simp: Let_def)
qed

text \<open>A service that fails ends the group with its error, when all the others then return without one.\<close>

lemma group_failed:
  assumes "errgroup_ok grp" "f \<in> set ss" "\<And>cancelled. f cancelled = ServiceReturned (Inl err)"
    and "\<And>s. s \<in> set ss \<Longrightarrow> s = f \<or> s True = ServiceReturned (Inr ())"
  shows "grp ctx ss = Inl (Err err)"
proof -
  let ?ends = "(\<lambda>s. s True) ` set ss"
  have "service_failed (f False)" by (simp add: assms(3) service_failed_def)
  then have c: "(ctx \<or> (\<exists>s \<in> set ss. service_failed (s False))) = True" using assms(2) by blast
  have "?ends \<subseteq> {ServiceReturned (Inl err), ServiceReturned (Inr ())}" using assms(3,4) by auto
  moreover have "ServiceReturned (Inl err) \<in> ?ends"
    by (rule image_eqI [OF _ assms(2)]) (simp add: assms(3))
  moreover from this have "\<exists>e \<in> ?ends. service_failed e" unfolding service_failed_def by blast
  moreover from calculation(1) have "?ends \<subseteq> range ServiceReturned" by blast
  ultimately show ?thesis
    using assms(1) [unfolded errgroup_ok_def, rule_format, of ctx ss] unfolding c Let_def by blast
qed

lemma group_panics:
  assumes "errgroup_ok grp" "f \<in> set ss" "\<And>cancelled. f cancelled = ServicePanicked"
  shows "grp ctx ss = Inl Panicking"
proof -
  have "ServicePanicked \<in> (\<lambda>s. s c) ` set ss" for c by (rule image_eqI [OF _ assms(2)]) (simp add: assms(3))
  then show ?thesis using assms(1) [unfolded errgroup_ok_def, rule_format, of ctx ss] by (simp add: Let_def)
qed

subsection \<open>How processes end\<close>

lemma lib_call_boots:
  assumes "boots b"
  shows "lib_call b = (Inr (), b)"
proof -
  from assms have "outcomes b 0 = None" "shift (outcomes b) = outcomes b" by (simp_all add: boots_def shift_def fun_eq_iff)
  then show ?thesis by (simp add: lib_call_def)
qed

lemma boots_log [simp]: "boots (log_event ev b) = boots b"
  by (simp add: boots_def log_event_def)

lemma acquire_boots: "boots b \<Longrightarrow> acquire r b = (Inr (), log_event (Acquired r) b)"
  by (simp add: acquire_def op_defs lib_call_boots)

lemma Setup_boots:
  assumes "boots b"
  obtains ex down b1 where "Setup ep b = (Inr (ex, down), b1)" "boots b1"
proof -
  have "\<exists>ex down b1. Setup ep b = (Inr (ex, down), b1) \<and> boots b1"
    using assms by (auto simp: Setup_def op_defs lib_call_boots)
  then show thesis using that by blast
qed

lemma traced_result:
  assumes "boots b" "\<And>b1. boots b1 \<Longrightarrow> fst (m b1) = r"
  shows "fst (andThen (onError g (Setup ep)) (\<lambda>(_, down). deferring down m) b) = r"
proof -
  from assms(1) obtain ex down b1 where "Setup ep b = (Inr (ex, down), b1)" "boots b1" by (rule Setup_boots)
  with assms(2) [of b1] show ?thesis by (cases "m b1") (simp add: op_defs deferring_def)
qed

lemma Run_results:
  assumes "boots b"
  shows "fst (RunScheduler cs (\<lambda>b. (r, b)) b) = r" "fst (RunWorker cw (\<lambda>b. (r, b)) b) = r"
    "fst (RunAPIGateway ca (\<lambda>b. (r, b)) b) = r"
  unfolding RunScheduler_def RunWorker_def RunAPIGateway_def
  by (rule traced_result [OF assms];
      simp add: op_defs deferring_def lib_call_boots acquire_boots migrate_Up_def)+

lemma restores_pure: "restores (\<lambda>b. (r, b))"
  by (simp add: restores_def)

text \<open>A \<^verbatim>\<open>Run\<close> function whose group has ended, in a process that started: its result and what it holds.\<close>

lemma Run_ends:
  assumes "boots b" "returns r"
  shows "\<exists>b1. RunScheduler cs (\<lambda>b. (r, b)) b = (r, b1) \<and> held b1 = held b"
    "\<exists>b1. RunWorker cw (\<lambda>b. (r, b)) b = (r, b1) \<and> held b1 = held b"
  using Run_results(1,2) [OF assms(1)] assms(2) RunScheduler_restores [OF restores_pure]
    RunWorker_restores [OF restores_pure]
  by (metis prod.collapse restoresD)+

lemma Run_gateway_ends:
  assumes "boots b" "returns r"
  shows "\<exists>b1. RunAPIGateway ca (\<lambda>b. (r, b)) b = (r, b1) \<and>
     (held b1 = held b \<or> (\<exists>h. r = Inl (annotate ''app/apigateway: migrate: '' h)))"
  using Run_results(3) [OF assms(1)] assms(2) RunAPIGateway_held [OF restores_pure] by (metis prod.collapse)

lemma main_end_returns [simp]: "main_end (Inr ()) = Exited 0"
  "\<not> errors_Is err ContextCanceled \<Longrightarrow> main_end (Inl (Err err)) = Exited 1"
  "main_end (Inl Blocked) = StillRunning" "main_end (Inl Panicking) = Crashed"
  by (simp_all add: main_end_def)

lemma worker_registry_ok: "\<exists>reg. worker_registry l = Inr reg"
  by (simp add: worker_registry_def Register_def NewRegistry_def)

lemma scheduler_intervals:
  "su_pollInterval (scheduler_loop cfg rc) = cs_PollInterval cfg"
  "1 < sint (cs_HBTimeout cfg) \<Longrightarrow> 0 < sint (hb_interval (scheduler_monitor cfg))"
proof -
  show "su_pollInterval (scheduler_loop cfg rc) = cs_PollInterval cfg"
    by (simp add: scheduler_loop_def NewSchedule_def WithPollInterval_def WithBatchSize_def)
  assume t: "1 < sint (cs_HBTimeout cfg)"
  have "sint (cs_HBTimeout cfg) < 2 ^ 63" using sint_lt [of "cs_HBTimeout cfg"] by simp
  then have "sint (word_of_int (sint (cs_HBTimeout cfg) div 2) :: 64 word) = sint (cs_HBTimeout cfg) div 2"
    using t by (simp add: sint_sbintrunc' signed_take_bit_int_eq_self)
  then show "0 < sint (hb_interval (scheduler_monitor cfg))"
    using t by (simp add: scheduler_monitor_def NewHeartbeat_def duration_half_def)
qed

lemma scheduler_loops_done:
  "0 < sint (cs_PollInterval cfg) \<Longrightarrow>
     loop_service (fst (Loop (scheduler_loop cfg rc) (ticks n True) w)) = ServiceReturned (Inr ())"
  "1 < sint (cs_HBTimeout cfg) \<Longrightarrow>
     loop_service (fst (Heartbeat_Run (scheduler_monitor cfg) (ticks n True) w)) = ServiceReturned (Inr ())"
  by (simp_all add: loop_service_done scheduler_intervals)

lemma monitor_interval:
  assumes "\<not> 1 < sint (cs_HBTimeout cfg)"
  shows "\<not> 0 < sint (hb_interval (scheduler_monitor cfg))"
proof -
  let ?s = "sint (cs_HBTimeout cfg)"
  define i where "i = (if ?s \<ge> 0 then ?s div 2 else - ((- ?s) div 2))"
  have "- (2 ^ 63) \<le> ?s" using sint_greater_eq [of "cs_HBTimeout cfg"] by simp
  then have "- (2 ^ 63) \<le> i" "i \<le> 0" using assms by (auto simp: i_def)
  then have "sint (word_of_int i :: 64 word) = i" by (simp add: sint_sbintrunc' signed_take_bit_int_eq_self)
  with \<open>i \<le> 0\<close> show ?thesis by (simp add: scheduler_monitor_def NewHeartbeat_def duration_half_def i_def)
qed

lemma scheduler_crashes:
  assumes "errgroup_ok grp" "boots b"
    and "\<not> (0 < sint (cs_PollInterval (LoadScheduler e)) \<and> 1 < sint (cs_HBTimeout (LoadScheduler e)))"
  shows "fst (scheduler_main e grp received rc n m las w b) = Crashed"
proof -
  let ?cfg = "LoadScheduler e"
  let ?loop = "\<lambda>c. loop_service (fst (Loop (scheduler_loop ?cfg rc) (ticks n c) w))"
  let ?mon = "\<lambda>c. loop_service (fst (Heartbeat_Run (scheduler_monitor ?cfg) (ticks m c) w))"
  have "\<exists>f \<in> {?loop, ?mon}. \<forall>c. f c = ServicePanicked"
    using assms(3) monitor_interval [of ?cfg] loop_service_panics(1) [of "scheduler_loop ?cfg rc"]
      loop_service_panics(2) [of "scheduler_monitor ?cfg"] by (auto simp: scheduler_intervals(1))
  then obtain f where "f \<in> set (scheduler_services ?cfg rc n m las w)" "\<And>c. f c = ServicePanicked"
    by (auto simp: scheduler_services_def)
  then have "grp ctx (scheduler_services ?cfg rc n m las w) = Inl Panicking" for ctx
    by (rule group_panics [OF assms(1)])
  then show ?thesis
    using Run_results(1) [OF assms(2), of ?cfg "Inl Panicking"]
    by (cases "RunScheduler ?cfg (Pair (Inl Panicking)) b") (simp add: scheduler_main_def)
qed

text \<open>A stream ends with its client at the latest.\<close>

lemma stream_loop_ends_with_client:
  "fst (fst (stream_loop pb s tid (es @ [StreamCtxDone]) sent w)) \<noteq> StreamOpen"
proof (induction es arbitrary: sent w)
  case (Cons e es)
  then show ?case by (cases e) (auto split: prod.split sum.split option.split)
qed simp

lemma stream_ends_with_client:
  "fst (fst (StreamTaskUpdates pb s tid send (es @ [StreamCtxDone]) w)) \<noteq> StreamOpen"
  by (auto simp: StreamTaskUpdates_def stream_loop_ends_with_client split: prod.split sum.split option.split)

text \<open>
  C38. A signal ends every process cleanly: after SIGINT or SIGTERM a process that started, whose
  servers are serving, whose intervals are positive, and whose handlers in progress return or
  see their context end, exits with status 0, and everything it acquired is released; the
  gateway does when no call to it is still open.
\<close>

theorem clean_shutdown:
  assumes "errgroup_ok grp" "NotifyContext False received" "boots b" "http_server_ok las" "las False = None"
    and "0 < sint (cs_PollInterval (LoadScheduler e))" "1 < sint (cs_HBTimeout (LoadScheduler e))"
    and "list_all (\<lambda>(d, call, xs). \<exists>x \<in> set xs. x \<noteq> HbTicker) ds"
    and "\<not> isl (fst (Subscribe rc taskStreamConst workerGroupName w))"
    and "grpc_server_ok False srv" "srv False = None"
  shows "(\<exists>b1. scheduler_main e grp received rc n m las w b = (Exited 0, b1) \<and> held b1 = held b) \<and>
     (\<exists>b1. worker_main e grp received rc ds las w b = (Exited 0, b1) \<and> held b1 = held b) \<and>
     (\<exists>b1. apigateway_main e grp received (Inr ()) srv las b = (Exited 0, b1) \<and> held b1 = held b)"
proof (intro conjI)
  have p: "prom_Serve las True = ServiceReturned (Inr ())" using assms(4,5) by (rule prom_Serve_done)
  have s: "grp True (scheduler_services (LoadScheduler e) rc n m las w) = Inr ()"
    using p by (intro group_clean [OF assms(1)])
      (simp add: scheduler_services_def scheduler_loops_done assms(6,7))
  then show "\<exists>b1. scheduler_main e grp received rc n m las w b = (Exited 0, b1) \<and> held b1 = held b"
    using Run_ends(1) [OF assms(3), of "Inr ()" "LoadScheduler e"] assms(2) by (auto simp: scheduler_main_def)
  obtain reg where reg: "worker_registry (lib w) = Inr reg" using worker_registry_ok by blast
  have "grp True (worker_services (LoadWorker e) reg rc ds las w) = Inr ()"
    using worker_service_done [OF assms(8,9)] p by (intro group_clean [OF assms(1)]) (simp add: worker_services_def)
  then show "\<exists>b1. worker_main e grp received rc ds las w b = (Exited 0, b1) \<and> held b1 = held b"
    using Run_ends(2) [OF assms(3), of "Inr ()" "LoadWorker e"] assms(2) reg by (auto simp: worker_main_def)
  have "grp True (gateway_services (Inr ()) srv las) = Inr ()"
    using grpc_Serve_done [OF assms(10,11)] p by (intro group_clean [OF assms(1)]) (simp add: gateway_services_def)
  then show "\<exists>b1. apigateway_main e grp received (Inr ()) srv las b = (Exited 0, b1) \<and> held b1 = held b"
    using Run_gateway_ends [OF assms(3), of "Inr ()" "LoadAPIGateway e"] assms(2) by (auto simp: apigateway_main_def)
qed

text \<open>
  C39. What takes a process down: a poll interval of the scheduler that is not positive, or a
  heartbeat timeout of at most one nanosecond, whose half is the monitor's interval, crashes the
  scheduler, signal or not and whatever its metrics listener does. With intervals that are
  positive, when the metrics listener of a scheduler or a worker returns an error that is neither
  \<^verbatim>\<open>ErrServerClosed\<close> nor a cancellation, the other goroutines are cancelled, the process releases
  what it holds and exits with status 1, signal or not. The process has started, and a worker is
  subscribed and its handlers in progress return or see their context end.
\<close>

theorem failure_stops_process:
  assumes "errgroup_ok grp" "boots b"
    and "list_all (\<lambda>(d, call, xs). \<exists>x \<in> set xs. x \<noteq> HbTicker) ds"
    and "\<not> isl (fst (Subscribe rc taskStreamConst workerGroupName w))"
    and "intervals_ok \<longleftrightarrow> 0 < sint (cs_PollInterval (LoadScheduler e)) \<and> 1 < sint (cs_HBTimeout (LoadScheduler e))"
  shows "(\<not> intervals_ok \<longrightarrow> fst (scheduler_main e grp received rc n m las w b) = Crashed) \<and>
     (\<forall>err. http_server_ok las \<and> las False = Some err \<and> err \<noteq> http_ErrServerClosed \<and> \<not> errors_Is err ContextCanceled \<longrightarrow>
        (intervals_ok \<longrightarrow> (\<exists>b1. scheduler_main e grp received rc n m las w b = (Exited 1, b1) \<and> held b1 = held b)) \<and>
        (\<exists>b1. worker_main e grp received rc ds las w b = (Exited 1, b1) \<and> held b1 = held b))"
proof (intro conjI allI impI)
  assume "\<not> intervals_ok"
  then show "fst (scheduler_main e grp received rc n m las w b) = Crashed"
    unfolding assms(5) by (rule scheduler_crashes [OF assms(1,2)])
next
  fix err
  assume las: "http_server_ok las \<and> las False = Some err \<and> err \<noteq> http_ErrServerClosed \<and> \<not> errors_Is err ContextCanceled"
  then have p: "prom_Serve las c = ServiceReturned (Inl err)" for c by (simp add: prom_Serve_failed)
  show "\<exists>b1. scheduler_main e grp received rc n m las w b = (Exited 1, b1) \<and> held b1 = held b" if intervals_ok
  proof -
    have "grp ctx (scheduler_services (LoadScheduler e) rc n m las w) = Inl (Err err)" for ctx
      using that unfolding assms(5)
      by (intro group_failed [OF assms(1) _ p]) (auto simp: scheduler_services_def scheduler_loops_done)
    then show ?thesis
      using Run_ends(1) [OF assms(2), of "Inl (Err err)" "LoadScheduler e"] las by (auto simp: scheduler_main_def)
  qed
  obtain reg where reg: "worker_registry (lib w) = Inr reg" using worker_registry_ok by blast
  have "grp ctx (worker_services (LoadWorker e) reg rc ds las w) = Inl (Err err)" for ctx
    using worker_service_done [OF assms(3,4)]
    by (intro group_failed [OF assms(1) _ p]) (auto simp: worker_services_def)
  then show "\<exists>b1. worker_main e grp received rc ds las w b = (Exited 1, b1) \<and> held b1 = held b"
    using Run_ends(2) [OF assms(2), of "Inl (Err err)" "LoadWorker e"] las reg by (auto simp: worker_main_def)
qed

text \<open>The gateway while a signal ends it, with the calls under way.\<close>

lemma gateway_waits:
  assumes "errgroup_ok grp" "NotifyContext False received" "boots b" "http_server_ok las" "las False = None"
    and "srv False = None" "grpc_server_ok opened srv"
  shows "fst (apigateway_main e grp received (Inr ()) srv las b) = (if opened then StillRunning else Exited 0)"
proof -
  have p: "prom_Serve las True = ServiceReturned (Inr ())" using assms(4,5) by (rule prom_Serve_done)
  have "grp True (gateway_services (Inr ()) srv las) = (if opened then Inl Blocked else Inr ())"
  proof (cases opened)
    case True
    then have "grpc_Serve (Inr ()) srv True = ServiceRunning"
      using assms(6,7) by (simp add: grpc_Serve_def grpc_server_ok_def)
    with p True show ?thesis by (simp add: group_blocked [OF assms(1)] gateway_services_def)
  next
    case False
    with assms(6,7) p show ?thesis by (simp add: group_clean [OF assms(1)] gateway_services_def grpc_Serve_done)
  qed
  moreover define r :: "halt + unit" where "r = (if opened then Inl Blocked else Inr ())"
  ultimately show ?thesis
    using Run_results(3) [OF assms(3), of "LoadAPIGateway e" r] assms(2)
    by (cases "RunAPIGateway (LoadAPIGateway e) (Pair r) b") (simp add: apigateway_main_def)
qed

text \<open>
  C40. An open stream keeps the gateway from stopping: \<^verbatim>\<open>StreamTaskUpdates\<close> does not look at the
  context of the process. While one client stays and follows a task that no poll has found
  finished, the gateway is still running after SIGTERM, however often the stream has polled
  before and after that context was done; when the contexts of all clients have ended, it exits.
\<close>

theorem stream_delays_shutdown:
  assumes "errgroup_ok grp" "NotifyContext False received" "boots b" "http_server_ok las" "las False = None"
    and "(tid, None, es) \<in> set calls" "no_faults w" "key w tid = Some k" "view w k = Some t"
    and "ServerCtxDone \<in> set es" "list_all undisturbed es" "polls w k es = map Some us" "list_all (\<lambda>t. \<not> finished t) us"
    and "srv False = None" "grpc_server_ok (streams_open pb calls w) srv"
    and "srv' False = None" "grpc_server_ok (streams_open pb (map (\<lambda>(i, send, es). (i, send, es @ [StreamCtxDone])) calls) w) srv'"
  shows "fst (apigateway_main e grp received (Inr ()) srv las b) = StillRunning \<and>
     fst (apigateway_main e grp received (Inr ()) srv' las b) = Exited 0"
proof -
  have "fst (StreamTaskUpdates pb gateway_server tid None es w) = (StreamOpen, map (taskToProto pb) (t # us))"
    using stream_follows_prefix [OF assms(7-9,11-13), of pb "[]"] by simp
  then have "streams_open pb calls w" unfolding streams_open_def by (intro bexI [OF _ assms(6)]) simp
  moreover have "\<not> streams_open pb (map (\<lambda>(i, send, es). (i, send, es @ [StreamCtxDone])) calls) w"
    by (auto simp: streams_open_def stream_ends_with_client)
  ultimately show ?thesis
    using gateway_waits [OF assms(1-5,14,15), of e] gateway_waits [OF assms(1-5,16,17), of e] by simp
qed

end
