(* ===== verification/Messages.thy ===== *)
theory Messages
  imports Dependencies Grpc_Server Listing
begin

text \<open>
  What the gateway answers with: in every state the system can reach, each message a client is sent
  about a task has a status of the protocol, a type, a payload and a priority the validation of
  \<^verbatim>\<open>Enqueue\<close> accepts, and the identifier of a stored task.
\<close>

text \<open>The type of a message about a task, by the comments of the protocol and the validation.\<close>

definition well_formed :: "'ts proto_Task \<Rightarrow> bool" where
  "well_formed p \<longleftrightarrow>
     p_Status p \<in> {TASK_STATUS_PENDING, TASK_STATUS_RUNNING, TASK_STATUS_COMPLETED, TASK_STATUS_FAILED,
       TASK_STATUS_CANCELLED} \<and>
     TrimSpace (p_Type p) \<noteq> [] \<and> (\<forall>b. p_Payload p = Some b \<longrightarrow> b = [] \<or> json_Valid b) \<and> p_Priority p \<le> 10"

text \<open>What may happen to the world between two polls of a stream: steps of the system.\<close>

definition by_steps :: "'r redis_client \<Rightarrow> 'r stream_event \<Rightarrow> bool" where
  "by_steps rc e \<longleftrightarrow> (case e of StreamCtxDone \<Rightarrow> True | ServerCtxDone \<Rightarrow> True
     | StreamTicker others _ \<Rightarrow> (\<forall>w. (sys_step rc)\<^sup>*\<^sup>* w (others w)))"

text \<open>The messages about tasks a client can be sent in a state.\<close>

inductive answers :: "'ts timestamppb \<Rightarrow> 'r redis_client \<Rightarrow> 'r world \<Rightarrow> 'ts proto_Task \<Rightarrow> bool" for pb rc w where
  get: "GetTask pb gateway_server tid w = (Inr p, w') \<Longrightarrow> answers pb rc w p"
| cancel: "CancelTask pb gateway_server tid w = (Inr p, w') \<Longrightarrow> answers pb rc w p"
| republish: "RepublishTask pb gateway_server tid w = (Inr p, w') \<Longrightarrow> answers pb rc w p"
| list: "ListTasks pb gateway_server req w = (Inr resp, w') \<Longrightarrow> p \<in> set (lr_Tasks resp) \<Longrightarrow> answers pb rc w p"
| stream: "StreamTaskUpdates pb gateway_server tid send es w = ((ended, ps), w') \<Longrightarrow> list_all (by_steps rc) es \<Longrightarrow>
    p \<in> set ps \<Longrightarrow> answers pb rc w p"

text \<open>The tasks whose messages are well formed.\<close>

definition sendable :: "Task \<Rightarrow> bool" where
  "sendable t \<longleftrightarrow> known_status (Status t) \<and> valid_task t"

subsection \<open>Stored tasks are valid\<close>

lemma reachable_valid: "reachable rc w \<Longrightarrow> \<forall>k t. view w k = Some t \<longrightarrow> valid_task t"
proof (induction rule: reachable.induct)
  case (start w)
  then show ?case by (simp add: view_def view_db_def select_task_def empty_db_def)
next
  case (step w w')
  from step(2) reachable_inv [OF step(1)] show ?case
  proof (cases rule: sys_step_cases3)
    case carried
    then show ?thesis using step(3) valid_identity by (metis carries_def)
  next
    case (stored k t')
    then show ?thesis using step(3) by simp
  next
    case picked
    then show ?thesis using step(3) valid_identity starts_identity [OF picked(3)] by blast
  qed
qed

lemma reachable_sendable: "reachable rc w \<Longrightarrow> view w k = Some t \<Longrightarrow> sendable t"
  using reachable_valid pg.view_known [OF reachable_inv] by (force simp: sendable_def)

lemma sendable_message: "sendable t \<Longrightarrow> well_formed (taskToProto pb t)"
proof -
  have "(ucast x :: 32 word) \<le> 10" if "x \<le> (10 :: 8 word)" for x
    using that by (simp add: word_le_def unsigned_ucast_eq take_bit_int_eq_self)
  then show "sendable t \<Longrightarrow> well_formed (taskToProto pb t)"
    by (auto simp: sendable_def valid_task_def well_formed_def taskToProto_def known_status_def statusToProto_def)
qed

lemma listed_stored:
  assumes "pg_inv w" "List_tasks f w = (Inr (ts, n), w')" "t \<in> set ts"
  shows "\<exists>k t'. view w k = Some t' \<and> (sendable t' \<longrightarrow> sendable t)"
proof -
  from assms(2) obtain rows w2 w3 cs l off
    where q: "tx_Exec (select_page (ties w 0) cs l off) (db w)
        (w\<lparr>faults := shift (faults w), ties := shift (ties w)\<rparr>) = (Inr rows, w2)"
      and s: "mapM (\<lambda>r. scanTask (Some r)) rows w2 = (Inr ts, w3)"
    unfolding List_tasks_def Let_def by (auto simp: andThen_Inr_iff driver_Inr)
  from assms(3) scan_rows_Inr [OF s] tx_Exec_Inr [OF q] obtain r
    where r: "r \<in> set rows" "t = task_of_row (lib w) r" and p: "select_page (ties w 0) cs l off (db w) = Inr rows" by auto
  from p r(1) have "r \<in> set (tasks (db w))"
    by (auto simp: select_page_def split: if_splits dest!: in_set_takeD in_set_dropD)
  then have "select_task (r_id r) (db w) = Some r"
    using assms(1) unfolding select_task_def pg_inv_def schema_ok_def ids_ok_def
    by (subst find_Some_distinct) auto
  then have "view w (r_id r) = Some (stored_task (lib w) (db w) r)" by (simp add: view_def view_db_def)
  then show ?thesis
    by (intro exI [of _ "r_id r"]) (auto simp: r(2) stored_task_def sendable_def valid_task_def)
qed

lemma sendable_same:
  assumes "sendable t" "same_identity t t'" "known_status (Status t')"
  shows "sendable t'"
  using assms valid_identity by (auto simp: sendable_def)

lemma by_steps_reachable:
  assumes "by_steps rc (StreamTicker others send)" "reachable rc w"
  shows "reachable rc (others w)"
proof -
  from assms(1) have "(sys_step rc)\<^sup>*\<^sup>* w (others w)" by (simp add: by_steps_def)
  then show ?thesis by (induction rule: rtranclp_induct) (auto intro: assms(2) reachable.step)
qed

lemma got_sendable:
  assumes "Get_Handle (s_get gateway_server) tid w = (Inr t, w')" "reachable rc w"
  shows "sendable t"
  using assms pg_get [OF _ reachable_inv [OF assms(2)]] reachable_sendable [OF assms(2)]
  by (fastforce simp: Get_Handle_def gateway_server_def New_Server_def)

lemma got_reachable:
  "Get_Handle (s_get gateway_server) tid w = (r, w') \<Longrightarrow> reachable rc w \<Longrightarrow> reachable rc w'"
  by (rule reachable.step [OF _ sys_step.get]) (simp_all add: gateway_server_def New_Server_def)

lemma stream_loop_well_formed:
  fixes w :: "'r world"
  assumes "stream_loop pb gateway_server tid es sent w = ((ended, ps), w')" "reachable rc w" "list_all (by_steps rc) es"
    and "list_all well_formed sent"
  shows "list_all well_formed ps"
  using assms
proof (induction pb "gateway_server :: 'r Server" tid es sent w rule: stream_loop.induct)
  case (4 pb tid others send es sent w)
  have o: "reachable rc (others w)" by (rule by_steps_reachable [OF _ 4(3), of others send]) (use 4(4) in simp)
  obtain r w1 where g: "Get_Handle (s_get gateway_server) tid (others w) = (r, w1)" by fastforce
  show ?case
  proof (cases r)
    case (Inr task)
    with g got_sendable o have "well_formed (taskToProto pb task)" by (blast intro: sendable_message)
    with 4 g Inr got_reachable [OF g o] show ?thesis by (auto split: option.splits if_splits)
  qed (use 4 g in simp)
qed simp_all

text \<open>
  C16. What the gateway sends is well typed: in every reachable state, each message about a task in
  a response to \<^verbatim>\<open>GetTask\<close>, \<^verbatim>\<open>CancelTask\<close>, \<^verbatim>\<open>RepublishTask\<close> or \<^verbatim>\<open>ListTasks\<close>, or on a stream over any
  polls between which the system takes steps, has one of the five statuses of the protocol and not
  the unspecified one, a type that is not blank, a payload that is empty or a JSON text, and a
  priority of at most 10.
\<close>

theorem answers_well_formed:
  assumes "reachable rc w" "answers pb rc w p"
  shows "well_formed p"
  using assms(2)
proof cases
  case (get tid w')
  then obtain t where "Get_Handle (s_get gateway_server) tid w = (Inr t, w')" "p = taskToProto pb t"
    by (auto simp: GetTask_def op_defs split: prod.splits sum.splits)
  then show ?thesis using got_sendable assms(1) by (blast intro: sendable_message)
next
  case (cancel tid w')
  then obtain t where t: "Cancel_Handle postgres_Repo tid w = (Inr t, w')" "p = taskToProto pb t"
    by (auto simp: CancelTask_def op_defs gateway_server_def New_Server_def split: prod.splits sum.splits)
  from prod.Cancel_success [OF reachable_inv [OF assms(1)] t(1)] obtain k u at
    where "view w k = Some u" "t = u\<lparr>Status := StatusCancelled, UpdatedAt := at\<rparr>" by blast
  then have "sendable t"
    by (intro sendable_same [OF reachable_sendable [OF assms(1)]]) (auto simp: same_identity_def known_status_def)
  then show ?thesis unfolding t(2) by (rule sendable_message)
next
  case (republish tid w')
  then obtain t where t: "Republish_Handle postgres_Repo tid w = (Inr t, w')" "p = taskToProto pb t"
    by (auto simp: RepublishTask_def op_defs gateway_server_def New_Server_def split: prod.splits sum.splits)
  from prod.Republish_success [OF reachable_inv [OF assms(1)] t(1)] obtain k u at where "view w k = Some u"
    "t = u\<lparr>Status := StatusPending, UpdatedAt := at, AttemptCount := 0, LastError := []\<rparr>" by blast
  then have "sendable t"
    by (intro sendable_same [OF reachable_sendable [OF assms(1)]]) (auto simp: same_identity_def known_status_def)
  then show ?thesis unfolding t(2) by (rule sendable_message)
next
  case (list req resp w')
  then obtain ts n where "List_tasks (filter_of_request req) w = (Inr (ts, n), w')" "lr_Tasks resp = map (taskToProto pb) ts"
    by (auto simp: ListTasks_def List_Handle_def op_defs gateway_server_def New_Server_def split: prod.splits sum.splits)
  with list(2) listed_stored [OF reachable_inv [OF assms(1)]] reachable_sendable [OF assms(1)] show ?thesis
    by (fastforce intro: sendable_message)
next
  case (stream tid send es ended ps w')
  obtain r w1 where g: "Get_Handle (s_get gateway_server) tid w = (r, w1)" by fastforce
  have "list_all well_formed ps"
  proof (cases r)
    case (Inr task)
    with g got_sendable assms(1) have "well_formed (taskToProto pb task)" by (blast intro: sendable_message)
    with stream g Inr got_reachable [OF g assms(1)] stream_loop_well_formed [of pb tid es "[taskToProto pb task]"] show ?thesis
      by (auto simp: StreamTaskUpdates_def split: option.splits)
  qed (use stream g in \<open>simp add: StreamTaskUpdates_def\<close>)
  then show ?thesis using stream(3) by (simp add: list_all_iff)
qed

end
