(* ===== verification/Witnesses.thy ===== *)
theory Witnesses
  imports Messages Listing Domain_Dag Lifecycle Dependencies Retries Fairness
begin

text \<open>
  The properties at concrete inputs: a database of six tasks, one in each status and a second
  pending one, a client of a Redis server that answers every command, a UUID library on unary
  numerals, and for every property with hypotheses the values that satisfy them.
\<close>

subsection \<open>The inputs\<close>

definition ex_Parse :: "string \<Rightarrow> go_error + uuid" where
  "ex_Parse s = (if set s \<subseteq> {CHR ''a''} then Inr (of_nat (length s)) else Inl (Opaque ''invalid UUID''))"

definition ex_lib :: library where
  "ex_lib = \<lparr>fmt_q = (\<lambda>s. ''~'' @ s @ ''~''), uuid_Parse = ex_Parse,
     uuid_String = (\<lambda>u. replicate (unat u) (CHR ''a''))\<rparr>"

definition ex_row :: "uuid \<Rightarrow> string \<Rightarrow> int16 \<Rightarrow> gotime \<Rightarrow> task_row" where
  "ex_row u st p at =
     \<lparr>r_id = u, r_type = ''noop'', r_payload = None, r_priority = p, r_status = st, r_attempt_count = 0,
      r_retry_limit = 3, r_scheduled_at = 0, r_created_at = at, r_updated_at = at, r_worker_id = None,
      r_last_error = None, r_result = None, r_idempotency_key = None\<rparr>"

definition ex_db :: database where
  "ex_db =
     \<lparr>tasks = [ex_row 1 ''completed'' 5 900000, ex_row 2 ''pending'' 5 910000, ex_row 3 ''pending'' 7 920000,
        ex_row 4 ''running'' 5 1000, ex_row 5 ''failed'' 5 930000, ex_row 6 ''cancelled'' 5 2000],
      task_dependencies = [(2, 1)]\<rparr>"

definition ex_on :: "'r \<Rightarrow> 'r world" where
  "ex_on s = \<lparr>lib = ex_lib, db = ex_db, rdb = s, clock = (\<lambda>n. 1000000 + 1000 * int n),
     new_ids = (\<lambda>n. 7 + of_nat n), faults = (\<lambda>_. None), locked = (\<lambda>_. False),
     ties = (\<lambda>_ _. 0), prom = new_prom\<rparr>"

definition ex_world :: "string list world" where
  "ex_world = ex_on []"

text \<open>The context of a worker ends after its fifth call to the driver; a \<^verbatim>\<open>COMMIT\<close> is carried out, but not confirmed.\<close>

definition ex_cancelled :: "string list world" where
  "ex_cancelled = ex_world\<lparr>faults := (\<lambda>n. if n < 5 then None else Some (Failed ContextCanceled))\<rparr>"

definition ex_lost :: "string list world" where
  "ex_lost = ex_world\<lparr>faults := (\<lambda>n. if n = 3 then Some (Unconfirmed (Opaque ''connection lost'')) else None)\<rparr>"

definition ex_start :: "string list world" where
  "ex_start = ex_world\<lparr>db := empty_db\<rparr>"

definition ex_begin :: "(string list \<times> history) world" where
  "ex_begin = (ex_on ([], []))\<lparr>db := empty_db\<rparr>"

definition ex_client :: "string list redis_client" where
  "ex_client =
     \<lparr>XAdd = (\<lambda>s v st. (Inr ''0-1'', st @ [s])), XGroupCreateMkStream = (\<lambda>s g i st. (Inr (), st)),
      XAutoClaim = (\<lambda>a st. (Inr [], st)), XReadGroup = (\<lambda>a st. (Inr [], st)),
      XAck = (\<lambda>s g m st. (Inr (), st @ [m]))\<rparr>"

definition ex_delivery :: "TaskID \<Rightarrow> Delivery" where
  "ex_delivery tid = \<lparr>d_ID = ''0-9'', d_TaskID = tid\<rparr>"

text \<open>A client that reclaims one message and reads two at a time, one of them without an identifier.\<close>

definition ex_message :: "string \<Rightarrow> string \<Rightarrow> XMessage" where
  "ex_message mid tid = \<lparr>x_ID = mid, x_Values = publish_values tid\<rparr>"

definition ex_reader :: "string list redis_client" where
  "ex_reader = ex_client\<lparr>XAutoClaim := \<lambda>a st. (Inr [ex_message ''0-1'' ''a''], st),
     XReadGroup := \<lambda>a st. (Inr [(''s'', [ex_message ''0-2'' [], ex_message ''0-3'' ''aa''])], st)\<rparr>"

text \<open>A registry with one handler, which returns or fails as given.\<close>

definition ex_handle :: "go_error option \<Rightarrow> HandlerFunc" where
  "ex_handle err = (\<lambda>_ _. \<lparr>er_result = Some [1], er_err = err\<rparr>)"

definition ex_registry :: "go_error option \<Rightarrow> Registry" where
  "ex_registry err = \<lparr>handlers = [''noop'' \<mapsto> ex_handle err]\<rparr>"

definition ex_worker :: config_Worker where
  "ex_worker = LoadWorker \<lparr>Getenv = (\<lambda>_. []), Hostname = ''host'', ParseDuration = (\<lambda>_. Inr 0)\<rparr>"

definition ex_scheduler :: config_Scheduler where
  "ex_scheduler = (LoadScheduler \<lparr>Getenv = (\<lambda>_. []), Hostname = [], ParseDuration = (\<lambda>_. Inr 0)\<rparr>)
     \<lparr>cs_HBTimeout := 500000\<rparr>"

definition ex_cmd :: "string \<Rightarrow> string \<Rightarrow> EnqueueCmd" where
  "ex_cmd ty ik =
     \<lparr>c_Type = ty, c_Payload = Some [0x7B, 0x7D], c_Priority = 3, c_Dependencies = [''a''], c_ScheduledAt = 0,
      c_RetryLimit = 2, c_IdempotencyKey = ik\<rparr>"

definition ex_pb :: "int timestamppb" where
  "ex_pb = \<lparr>ts_New = (\<lambda>t. t), ts_IsValid = (\<lambda>_. True), ts_AsTime = (\<lambda>t. t)\<rparr>"

definition ex_new :: Task where
  "ex_new = new_task (ex_cmd ''noop'' []) 0 ''aaaaaaa''"

text \<open>A graph of two tasks that depend on each other.\<close>

definition ex_deps :: "string \<Rightarrow> string list" where
  "ex_deps x = (if x = ''a'' then [''b''] else if x = ''b'' then [''a''] else [])"

text \<open>A start in which the third library call fails, which is the migration when tracing is off.\<close>

definition ex_boot :: boot where
  "ex_boot = \<lparr>outcomes = (\<lambda>n. if n = 2 then Some (Opaque ''no such table'') else None), trail = []\<rparr>"

definition ex_gateway :: config_APIGateway where
  "ex_gateway = (LoadAPIGateway \<lparr>Getenv = (\<lambda>_. []), Hostname = [], ParseDuration = (\<lambda>_. Inr 0)\<rparr>)
     \<lparr>ag_OTLPEndpoint := ''noop''\<rparr>"

text \<open>
  A run of the whole system: two tasks are enqueued, the second depends on the first; the
  scheduler dispatches the first, a worker completes it, the scheduler dispatches the second.
\<close>

definition ex_enqueued :: "string list world" where
  "ex_enqueued = snd (Enqueue_Handle gateway_enqueue ((ex_cmd ''noop'' [])\<lparr>c_Dependencies := [''aaaaaaa'']\<rparr>)
     (snd (Enqueue_Handle gateway_enqueue ((ex_cmd ''noop'' [])\<lparr>c_Dependencies := []\<rparr>) ex_start)))"

definition ex_ticked :: "string list world \<Rightarrow> string list world" where
  "ex_ticked w = snd (tick (scheduler_loop ex_scheduler ex_client) w)"

definition ex_worked :: "string list world \<Rightarrow> string list world" where
  "ex_worked w = snd (process (worker_execute ex_worker (ex_registry None) ex_client) (ex_delivery ''aaaaaaa'') 0
     [HandlerReturned] w)"

text \<open>A scheduler that takes one task at a time.\<close>

definition ex_narrow :: config_Scheduler where
  "ex_narrow = ex_scheduler\<lparr>cs_BatchSize := 1\<rparr>"

definition ex_narrow_tick :: "string list world \<Rightarrow> string list world" where
  "ex_narrow_tick w = snd (tick (scheduler_loop ex_narrow ex_client) w)"

text \<open>A task registered with two attempts, and a round in which its handler fails, up to a time after any backoff.\<close>

definition ex_single :: "string list world" where
  "ex_single = snd (Enqueue_Handle gateway_enqueue ((ex_cmd ''noop'' [])\<lparr>c_Dependencies := []\<rparr>) ex_start)"

definition ex_failing :: Registry where
  "ex_failing = ex_registry (Some (Opaque ''boom''))"

definition ex_round :: "string list world \<Rightarrow> string list world" where
  "ex_round w = (snd (process (worker_execute ex_worker ex_failing ex_client) (ex_delivery ''aaaaaaa'') 0
     [HandlerReturned] ((ex_ticked w)\<lparr>faults := \<lambda>_. None\<rparr>)))\<lparr>clock := \<lambda>n. 10 ^ 18 + int n\<rparr>"

text \<open>A task whose worker is gone, long after the heartbeat timeout, and the tables after the monitor's check.\<close>

definition ex_crashed :: "(string list \<times> history) world" where
  "ex_crashed = (snd (tick (scheduler_loop ex_scheduler (recording ex_client))
     (snd (Enqueue_Handle gateway_enqueue ((ex_cmd ''noop'' [])\<lparr>c_Dependencies := []\<rparr>) ex_begin))))
       \<lparr>faults := \<lambda>_. None, clock := \<lambda>n. 10 ^ 18 + 1000 * int n\<rparr>"

definition ex_reset :: "(string list \<times> history) world" where
  "ex_reset = (heartbeat_check (scheduler_monitor ex_scheduler) ex_crashed)\<lparr>faults := \<lambda>_. None\<rparr>"

text \<open>An environment without settings, a start without failures, and libraries that behave as documented.\<close>

definition ex_env :: env where
  "ex_env = \<lparr>Getenv = (\<lambda>_. []), Hostname = ''host'', ParseDuration = (\<lambda>_. Inr 0)\<rparr>"

definition ex_hasty :: env where
  "ex_hasty = ex_env\<lparr>Getenv := (\<lambda>k. if k = ''HEARTBEAT_TIMEOUT'' then ''1ns'' else []), ParseDuration := (\<lambda>_. Inr 1)\<rparr>"

definition ex_boots :: boot where
  "ex_boots = \<lparr>outcomes = (\<lambda>_. None), trail = []\<rparr>"

definition ex_group :: errgroup where
  "ex_group ctx ss =
     (let ends = map (\<lambda>s. s (ctx \<or> list_ex (\<lambda>s. service_failed (s False)) ss)) ss in
      if ServicePanicked \<in> set ends then Inl Panicking
      else if ServiceRunning \<in> set ends then Inl Blocked
      else (case find service_failed ends of Some (ServiceReturned (Inl err)) \<Rightarrow> Inl (Err err) | _ \<Rightarrow> Inr ()))"

definition ex_listener :: "bool \<Rightarrow> go_error option" where
  "ex_listener shut = (if shut then Some http_ErrServerClosed else None)"

definition ex_rpc :: "bool \<Rightarrow> (go_error + unit) option" where
  "ex_rpc stopped = (if stopped then Some (Inr ()) else None)"

definition ex_in_use :: go_error where
  "ex_in_use = Opaque ''listen tcp :9091: bind: address already in use''"

text \<open>The stored task of a row.\<close>

abbreviation ex_task :: "task_row \<Rightarrow> Task" where
  "ex_task \<equiv> stored_task ex_lib ex_db"

text \<open>A result in which the operation succeeded and satisfies a condition.\<close>

definition succeeds :: "('e + 'a) \<times> 'w \<Rightarrow> ('a \<Rightarrow> 'w \<Rightarrow> bool) \<Rightarrow> bool" where
  "succeeds x P = (case x of (Inr a, w) \<Rightarrow> P a w | (Inl _, _) \<Rightarrow> False)"

lemma succeedsE:
  assumes "succeeds x P"
  obtains a w where "x = (Inr a, w)" "P a w"
  using assms by (cases x; cases "fst x") (auto simp: succeeds_def)

lemma ex_uuid_ok: "uuid_ok ex_lib"
  by (auto simp: uuid_ok_def ex_lib_def ex_Parse_def)

lemma ex_db_ok: "schema_ok ex_db" "statuses_ok ex_db"
  by code_simp+

lemma ex_inv: "pg_inv ex_world" "pg_inv (ex_on s)" "pg_inv ex_start"
  using ex_uuid_ok ex_db_ok schema_ok_empty
  by (simp_all add: pg_inv_def ex_world_def ex_on_def ex_start_def statuses_ok_def) (simp add: empty_db_def)

lemma ex_no_faults: "no_faults ex_world" "no_faults (ex_on s)" "no_faults ex_start"
  by (simp_all add: no_faults_def ex_world_def ex_on_def ex_start_def)

lemma ex_view:
  "view ex_world 1 = Some (ex_task (ex_row 1 ''completed'' 5 900000))"
  "view ex_world 2 = Some (ex_task (ex_row 2 ''pending'' 5 910000))"
  "view ex_world 4 = Some (ex_task (ex_row 4 ''running'' 5 1000))"
  "view ex_world 5 = Some (ex_task (ex_row 5 ''failed'' 5 930000))"
  by (simp_all add: view_def view_db_def ex_world_def ex_on_def ex_db_def select_task_def ex_row_def)

lemma ex_key:
  "key ex_world ''a'' = Some 1" "key ex_world ''aa'' = Some 2" "key ex_world ''aaaa'' = Some 4"
  "key ex_world ''aaaaa'' = Some 5" "key ex_world ''zz'' = None"
  by (simp_all add: key_def ex_world_def ex_on_def ex_lib_def ex_Parse_def)

lemma ex_row_status [simp]: "r_status (ex_row u s p at) = s"
  by (simp add: ex_row_def)

lemma ex_task_fields:
  "Status (ex_task (ex_row u s p at)) = s" "Type (ex_task (ex_row u s p at)) = ''noop''"
  "AttemptCount (ex_task (ex_row u s p at)) = 0" "RetryLimit (ex_task (ex_row u s p at)) = 3"
  by (simp_all add: stored_task_def task_of_row_def ex_row_def int_of_int32_def)

lemma ex_handler:
  "handlers (ex_registry err) (Type (ex_task (ex_row u s p at))) = Some (ex_handle err)"
  by (simp add: ex_registry_def ex_task_fields)

lemma ex_handle_fields [simp]:
  "er_err (ex_handle err call p) = err" "er_result (ex_handle err call p) = Some [1]"
  by (simp_all add: ex_handle_def)

lemma ex_statuses:
  "Status (ex_task (ex_row 4 ''running'' 5 1000)) = StatusRunning"
  "terminal (Status (ex_task (ex_row 1 ''completed'' 5 900000)))"
  "Status (ex_task (ex_row 2 ''pending'' 5 910000)) = StatusPending"
  "Status (ex_task (ex_row 5 ''failed'' 5 930000)) = StatusFailed"
  by code_simp+

lemma ex_deliveries:
  "key ex_world (d_TaskID (ex_delivery ''aaaa'')) = Some 4" "key ex_world (d_TaskID (ex_delivery ''a'')) = Some 1"
  by (simp_all add: ex_delivery_def ex_key)

lemma ex_redis:
  "xack ex_client (d_ID (ex_delivery tid)) s = s @ [''0-9'']" "xadd_dlq ex_client tid s = s @ [''rsufz:dlq'']"
  "rdb ex_world = []" "cw_WorkerID ex_worker = ''host''"
  by (simp_all add: xack_def xadd_dlq_def ex_client_def ex_delivery_def ex_world_def ex_on_def ex_worker_def
      LoadWorker_def envOr_def hostname_def dlqStream_def)

lemmas ex_running = ex_inv(1) ex_no_faults(1) ex_deliveries(1) ex_view(3) ex_statuses(1)

subsection \<open>Dispatch\<close>

lemma ex_pick: "succeeds (PickAndMarkRunning 10 ex_world) (\<lambda>ts w. map ID ts = [''aaa'', ''aa''])"
  by code_simp

lemma ex_pick_one:
  "succeeds (PickAndMarkRunning 1 ex_world) (\<lambda>ts w1. map ID ts = [''aaa''] \<and>
     succeeds (PickAndMarkRunning 10 w1) (\<lambda>us w2. map ID us = [''aa'']))"
  by code_simp

theorem pick_only_runnable_witness:
  "\<exists>ts w' t k t'. PickAndMarkRunning 10 ex_world = (Inr ts, w') \<and> t \<in> set ts \<and> key ex_world (ID t) = Some k \<and>
     runnable ex_world (timestamptz (clock ex_world 0)) k \<and> \<not> locked ex_world k \<and>
     view w' k = Some t' \<and> Status t' = StatusRunning"
proof -
  from ex_pick obtain ts w' where p: "PickAndMarkRunning 10 ex_world = (Inr ts, w')" "map ID ts = [''aaa'', ''aa'']"
    by (rule succeedsE)
  then have "hd ts \<in> set ts" by (cases ts) auto
  from pick_only_runnable [OF ex_inv(1) p(1) this] this p(1) show ?thesis by blast
qed

theorem pick_ordered_witness:
  "\<exists>ts w'. PickAndMarkRunning 10 ex_world = (Inr ts, w') \<and> length ts = 2 \<and>
     distinct (map (key ex_world \<circ> ID) ts) \<and> int (length ts) \<le> sint (int32_of_int 10) \<and>
     sorted (map dispatch_order ts)"
proof -
  from ex_pick obtain ts w' where p: "PickAndMarkRunning 10 ex_world = (Inr ts, w')" "map ID ts = [''aaa'', ''aa'']"
    by (rule succeedsE)
  have "length ts = 2" using arg_cong [OF p(2), of length] by simp
  with pick_ordered [OF ex_inv(1) p(1)] p(1) show ?thesis by blast
qed

lemma ex_runnable: "runnable ex_world (timestamptz (clock ex_world 0)) 2"
proof -
  have "ready (timestamptz (clock ex_world 0)) (db ex_world) (ex_row 2 ''pending'' 5 910000)" by code_simp
  moreover have "select_task 2 (db ex_world) = Some (ex_row 2 ''pending'' 5 910000)" by code_simp
  ultimately show ?thesis using ready_runnable [OF ex_inv(1)] by blast
qed

theorem pick_maximal_witness:
  "\<exists>ts w'. PickAndMarkRunning 1 ex_world = (Inr ts, w') \<and> int (length ts) = sint (int32_of_int 1) \<and>
     list_all (\<lambda>p. dispatch_order p \<le> dispatch_order (ex_task (ex_row 2 ''pending'' 5 910000))) ts"
proof -
  from ex_pick_one obtain ts w' where p: "PickAndMarkRunning 1 ex_world = (Inr ts, w')" "map ID ts = [''aaa'']"
    by (elim succeedsE conjE) (rule that)
  have "(key ex_world \<circ> ID) ` set ts = key ex_world ` set [''aaa'']"
    by (simp only: p(2) [symmetric] set_map image_image o_def)
  moreover have "key ex_world ''aaa'' = Some 3" by code_simp
  ultimately have "Some 2 \<notin> (key ex_world \<circ> ID) ` set ts" by simp
  moreover have "\<not> locked ex_world 2" by code_simp
  ultimately show ?thesis
    using pick_maximal [OF ex_inv(1) p(1) ex_runnable _ ex_view(2)] p(1) by (auto simp: list_all_iff)
qed

theorem pick_exclusive_witness:
  "\<exists>ts w1 us w3. PickAndMarkRunning 1 ex_world = (Inr ts, w1) \<and> PickAndMarkRunning 10 w1 = (Inr us, w3) \<and>
     map ID ts = [''aaa''] \<and> map ID us = [''aa''] \<and>
     (key ex_world \<circ> ID) ` set ts \<inter> (key ex_world \<circ> ID) ` set us = {}"
proof -
  from ex_pick_one obtain ts w1 where p: "PickAndMarkRunning 1 ex_world = (Inr ts, w1)" "map ID ts = [''aaa'']"
    and q: "succeeds (PickAndMarkRunning 10 w1) (\<lambda>us w2. map ID us = [''aa''])"
    by (rule succeedsE) (erule conjE, rule that)
  from q obtain us w3 where r: "PickAndMarkRunning 10 w1 = (Inr us, w3)" "map ID us = [''aa'']"
    by (rule succeedsE)
  from pick_exclusive [OF ex_inv(1) p(1) refl refl r(1)] p r show ?thesis
    by (intro exI [of _ ts] exI [of _ w1] exI [of _ us] exI [of _ w3] conjI)
qed

lemma ex_narrow_ticks:
  "tick (scheduler_loop ex_narrow ex_client) ex_world = (Inr (), ex_narrow_tick ex_world)"
  "tick (scheduler_loop ex_narrow ex_client) (ex_narrow_tick ex_world) = (Inr (), ex_narrow_tick (ex_narrow_tick ex_world))"
proof -
  have "\<not> isl (fst (tick (scheduler_loop ex_narrow ex_client) ex_world))"
    "\<not> isl (fst (tick (scheduler_loop ex_narrow ex_client) (ex_narrow_tick ex_world)))" by code_simp+
  then show "tick (scheduler_loop ex_narrow ex_client) ex_world = (Inr (), ex_narrow_tick ex_world)"
    "tick (scheduler_loop ex_narrow ex_client) (ex_narrow_tick ex_world) = (Inr (), ex_narrow_tick (ex_narrow_tick ex_world))"
    by (auto simp: ex_narrow_tick_def prod_eq_iff split: sum.splits) (metis isl_def old.unit.exhaust sum.exhaust_sel)+
qed

lemma ex_narrow_runnable:
  "runnable (ex_narrow_tick ex_world) (timestamptz (clock (ex_narrow_tick ex_world) 0)) 2"
proof -
  let ?w = "ex_narrow_tick ex_world"
  have "pg_inv ?w" using tick_starts [OF ex_inv(1) ex_narrow_ticks(1)] by blast
  moreover have "ready (timestamptz (clock ?w 0)) (db ?w) (ex_row 2 ''pending'' 5 910000)" by code_simp
  moreover have "select_task 2 (db ?w) = Some (ex_row 2 ''pending'' 5 910000)" by code_simp
  ultimately show ?thesis using ready_runnable by blast
qed

lemma ex_narrow_passed: "passed_over ex_narrow ex_client 2 ex_world (ex_narrow_tick ex_world)"
proof (rule passed_overI [OF ex_inv(1) ex_narrow_ticks(1) ex_runnable])
  show "\<not> locked ex_world 2" by code_simp
  show "view (ex_narrow_tick ex_world) 2 = view ex_world 2" by code_simp
qed (use tick_starts [OF ex_inv(1) ex_narrow_ticks(1)] in auto)

lemma ex_ahead: "card (ahead ex_world 2) \<le> 1"
proof -
  have "ahead ex_world 2 \<subseteq> {3}"
  proof
    fix u
    assume "u \<in> ahead ex_world 2"
    then have u: "u \<noteq> 2" "map_option Status (view ex_world u) = Some StatusPending" by (auto simp: ahead_def)
    then have "u \<in> r_id ` set (tasks ex_db)"
      by (intro ccontr [of "u \<in> r_id ` set (tasks ex_db)"])
        (auto simp: ex_world_def ex_on_def view_def view_db_def select_task_def find_None_key [THEN iffD2])
    moreover have "r_id ` set (tasks ex_db) = {1, 2, 3, 4, 5, 6}" by code_simp
    moreover have "map_option Status (view ex_world 1) \<noteq> Some StatusPending"
      "map_option Status (view ex_world 4) \<noteq> Some StatusPending"
      "map_option Status (view ex_world 5) \<noteq> Some StatusPending"
      "map_option Status (view ex_world 6) \<noteq> Some StatusPending" by code_simp+
    ultimately show "u \<in> {3}" using u by (simp only: insert_iff empty_iff) metis
  qed
  from card_mono [OF _ this] show ?thesis by simp
qed

theorem no_starvation_witness:
  "\<exists>v v' t. passed_over ex_narrow ex_client 2 ex_world v \<and>
     tick (scheduler_loop ex_narrow ex_client) v = (Inr (), v') \<and> view v' 2 = Some t \<and> Status t = StatusRunning"
proof -
  have "batch ex_narrow = 1" "\<not> locked (ex_narrow_tick ex_world) 2" by code_simp+
  moreover have "pg_inv (ex_narrow_tick ex_world)" using tick_starts [OF ex_inv(1) ex_narrow_ticks(1)] by blast
  moreover have "(passed_over ex_narrow ex_client 2 ^^ 1) ex_world (ex_narrow_tick ex_world)"
    using ex_narrow_passed by (simp add: eq_OO)
  ultimately have "\<exists>t. view (ex_narrow_tick (ex_narrow_tick ex_world)) 2 = Some t \<and> Status t = StatusRunning"
    using no_starvation [of 1 ex_narrow ex_client 2 ex_world, OF _ _ ex_narrow_ticks(2) ex_narrow_runnable] ex_ahead by simp
  with ex_narrow_passed ex_narrow_ticks(2) show ?thesis by blast
qed

subsection \<open>The worker\<close>

text \<open>One heartbeat, then the handler returns.\<close>

theorem worker_completes_witness:
  "\<exists>w' t'. process (worker_execute ex_worker (ex_registry None) ex_client) (ex_delivery ''aaaa'') 0
       [HbTicker, HandlerReturned] ex_world = (True, w') \<and>
     view w' = (view ex_world)(4 \<mapsto> t') \<and> Status t' = StatusCompleted \<and> Result t' = Some [1] \<and>
     WorkerID t' = ''host'' \<and> rdb w' = [''0-9'']"
  using worker_completes [OF ex_running ex_handler [of None], where call = 0 and cfg = ex_worker and rc = ex_client
      and n = 1 and es = "[]"]
  by (auto simp: ex_redis)

theorem worker_retries_witness:
  "\<exists>w' t'. process (worker_execute ex_worker (ex_registry (Some (Opaque ''boom''))) ex_client)
       (ex_delivery ''aaaa'') 0 [HandlerReturned] ex_world = (True, w') \<and>
     view w' = (view ex_world)(4 \<mapsto> t') \<and> Status t' = StatusPending \<and> sint (AttemptCount t') = 1 \<and>
     LastError t' = ''boom'' \<and> rdb w' = [''0-9'']"
  using worker_retries [OF ex_running ex_handler [of "Some (Opaque ''boom'')"], where call = 0 and e = "Opaque ''boom''"
      and cfg = ex_worker and rc = ex_client and n = 0 and es = "[]"]
  by (auto simp: ex_redis ex_task_fields)

lemma ex_cancelled_get:
  "succeeds (GetByID ''aaaa'' (ex_cancelled\<lparr>clock := shift (clock ex_cancelled)\<rparr>))
     (\<lambda>t w2. faults w2 0 = Some (Failed ContextCanceled))"
  by code_simp

theorem worker_fails_witness:
  "(\<exists>w' t'. process (worker_execute ex_worker (ex_registry (Some ContextCanceled)) ex_client)
       (ex_delivery ''aaaa'') 0 [HandlerReturned] ex_world = (True, w') \<and>
     view w' = (view ex_world)(4 \<mapsto> t') \<and> Status t' = StatusFailed \<and> AttemptCount t' = 0 \<and>
     LastError t' = ''context canceled'' \<and> rdb w' = [''rsufz:dlq'', ''0-9'']) \<and>
   (\<exists>w' t'. process (worker_execute ex_worker (ex_registry (Some ContextCanceled)) ex_client)
       (ex_delivery ''aaaa'') 0 [TaskCtxDone ContextCanceled] ex_cancelled = (True, w') \<and>
     view w' = (view ex_cancelled)(4 \<mapsto> t') \<and> Status t' = StatusRunning \<and> rdb w' = [])"
proof -
  let ?u = "worker_execute ex_worker (ex_registry (Some ContextCanceled)) ex_client"
  note fails = worker_fails [OF ex_running ex_handler [of "Some ContextCanceled"], where call = 0 and e = ContextCanceled
      and cfg = ex_worker and rc = ex_client and n = 0 and es = "[]", simplified]
  have v: "db ex_cancelled = db ex_world" "lib ex_cancelled = lib ex_world" "rdb ex_cancelled = []"
    by (simp_all add: ex_cancelled_def ex_world_def ex_on_def)
  from ex_cancelled_get obtain t w2
    where g: "GetByID ''aaaa'' (ex_cancelled\<lparr>clock := shift (clock ex_cancelled)\<rparr>) = (Inr t, w2)"
      and f: "faults w2 0 = Some (Failed ContextCanceled)" by (rule succeedsE)
  have same: "pg_inv ex_cancelled" "key ex_cancelled = key ex_world" "view ex_cancelled = view ex_world"
    using pg_frame [OF v(2,1)] ex_inv(1) by simp_all
  then have "t = ex_task (ex_row 4 ''running'' 5 1000)"
    using pg_get [OF g] ex_deliveries(1) ex_view(3) by (simp add: ex_delivery_def)
  with conjunct2 [OF fails, rule_format, of ex_cancelled "TaskCtxDone ContextCanceled" w2] g f v
  have "\<exists>w' t'. process ?u (ex_delivery ''aaaa'') 0 [TaskCtxDone ContextCanceled] ex_cancelled = (True, w') \<and>
     view w' = (view ex_cancelled)(4 \<mapsto> t') \<and> Status t' = StatusRunning \<and> rdb w' = []"
    by (auto simp: ex_delivery_def)
  with conjunct1 [OF fails] show ?thesis by (auto simp: ex_redis ex_task_fields)
qed

theorem process_confined_witness:
  "\<exists>w' t'. process (worker_execute ex_worker (ex_registry None) ex_client) (ex_delivery ''aaaa'') 0
       [TaskCtxDone ContextCanceled] ex_world = (True, w') \<and>
     view w' 5 = view ex_world 5 \<and> view w' 4 = Some t' \<and> same_identity (ex_task (ex_row 4 ''running'' 5 1000)) t'"
proof -
  obtain w' where p: "process (worker_execute ex_worker (ex_registry None) ex_client) (ex_delivery ''aaaa'') 0
       [TaskCtxDone ContextCanceled] ex_world = (True, w')"
  proof -
    have "fst (process (worker_execute ex_worker (ex_registry None) ex_client) (ex_delivery ''aaaa'') 0
       [TaskCtxDone ContextCanceled] ex_world)" by code_simp
    then show thesis using that by (metis (full_types) prod.collapse)
  qed
  have "key ex_world (d_TaskID (ex_delivery ''aaaa'')) \<noteq> Some 5" by (simp add: ex_deliveries)
  with process_confined [OF ex_inv(1) p] ex_view(3) p show ?thesis by blast
qed

subsection \<open>The system\<close>

lemma ex_first_enqueue:
  "succeeds (Enqueue_Handle gateway_enqueue ((ex_cmd ''noop'' [])\<lparr>c_Dependencies := []\<rparr>) ex_start)
     (\<lambda>tid w. length (tasks (db w)) = 1)"
  by code_simp

lemma ex_reachable: "reachable ex_client ex_start"
  by (rule reachable.start) (simp_all add: ex_start_def ex_world_def ex_on_def ex_uuid_ok)

theorem reachable_consistent_witness:
  "\<exists>w. reachable ex_client w \<and> length (tasks (db w)) = 1 \<and> schema_ok (db w) \<and> statuses_ok (db w)"
proof -
  from ex_first_enqueue obtain tid w
    where e: "Enqueue_Handle gateway_enqueue ((ex_cmd ''noop'' [])\<lparr>c_Dependencies := []\<rparr>) ex_start = (Inr tid, w)"
      and n: "length (tasks (db w)) = 1" by (rule succeedsE)
  have "reachable ex_client w" by (rule reachable.step [OF ex_reachable sys_step.enqueue [OF e]])
  with reachable_consistent [OF this] n show ?thesis by blast
qed

lemma ex_round_reachable:
  assumes "reachable ex_client w"
  shows "reachable ex_client (ex_round w)"
proof -
  let ?v = "(ex_ticked w)\<lparr>faults := \<lambda>_. None\<rparr>"
  have "reachable ex_client (ex_ticked w)"
    unfolding ex_ticked_def by (rule reachable.step [OF assms sys_step.tick [OF prod.collapse [symmetric]]])
  then have "reachable ex_client ?v" by (rule reachable.step) (rule sys_step.environment; simp)
  from reachable.step [OF reachable.step [OF this sys_step.work [OF prod.collapse [symmetric]]] sys_step.environment]
  show ?thesis unfolding ex_round_def by simp
qed

lemma ex_round_fails:
  assumes "reachable ex_client w" "key w ''aaaaaaa'' = Some 7"
    and "map_option (\<lambda>t. (Status t, Type t)) (view w 7) = Some (StatusPending, ''noop'')"
    and "map_option Status (view (ex_ticked w) 7) = Some StatusRunning"
  shows "failed_round ex_scheduler ex_worker ex_failing ex_client 7 w (ex_round w)"
proof -
  let ?v = "(ex_ticked w)\<lparr>faults := \<lambda>_. None\<rparr>"
  obtain r where t: "tick (scheduler_loop ex_scheduler ex_client) w = (r, ex_ticked w)"
    by (metis ex_ticked_def prod.collapse)
  obtain b w3 where p: "process (worker_execute ex_worker ex_failing ex_client) (ex_delivery ''aaaaaaa'') 0
     [HandlerReturned] ?v = (b, w3)" by fastforce
  from assms(3,4) obtain t t1 where v: "view w 7 = Some t" "Status t = StatusPending" "Type t = ''noop''"
    "view (ex_ticked w) 7 = Some t1" "Status t1 = StatusRunning" by auto
  have k: "key ?v (d_TaskID (ex_delivery ''aaaaaaa'')) = Some 7"
    using step_ok_key [OF prod.tick_step [OF reachable_inv [OF assms(1)] _ _ _ t]] assms(2)
    by (simp add: ex_delivery_def key_def fun_eq_iff)
  have w': "view (ex_round w) 7 = view w3 7" using p by (simp add: ex_round_def)
  show ?thesis
    by (rule failed_roundI [where n = 0 and es = "[]" and e = "Opaque ''boom''" and call = 0
        and h = "ex_handle (Some (Opaque ''boom''))", OF reachable_inv [OF assms(1)] t v(1,2,4,5) _ _ _ k _ _ _ _
        reachable_inv [OF ex_round_reachable [OF assms(1)]] w'])
      (use p v(3) in \<open>simp_all add: no_faults_def ex_failing_def ex_registry_def\<close>)
qed

lemma ex_single_reachable: "reachable ex_client ex_single"
  unfolding ex_single_def by (intro reachable.step [OF ex_reachable sys_step.enqueue [OF prod.collapse [symmetric]]])

lemma ex_single_rounds:
  "key ex_single ''aaaaaaa'' = Some 7 \<and>
   map_option (\<lambda>t. (Status t, Type t)) (view ex_single 7) = Some (StatusPending, ''noop'') \<and>
   map_option rounds_left (view ex_single 7) = Some 2 \<and>
   map_option Status (view (ex_ticked ex_single) 7) = Some StatusRunning"
  "key (ex_round ex_single) ''aaaaaaa'' = Some 7 \<and>
   map_option (\<lambda>t. (Status t, Type t)) (view (ex_round ex_single) 7) = Some (StatusPending, ''noop'') \<and>
   map_option Status (view (ex_ticked (ex_round ex_single)) 7) = Some StatusRunning"
  by code_simp+

theorem retries_terminate_witness:
  "\<exists>w w' t t'. (failed_round ex_scheduler ex_worker ex_failing ex_client 7 ^^ 2) w w' \<and>
     view w 7 = Some t \<and> Status t = StatusPending \<and> rounds_left t = 2 \<and> view w' 7 = Some t' \<and> Status t' = StatusFailed"
proof -
  let ?w = "ex_round (ex_round ex_single)"
  have "failed_round ex_scheduler ex_worker ex_failing ex_client 7 ex_single (ex_round ex_single)"
    using ex_single_rounds(1) by (intro ex_round_fails ex_single_reachable) simp_all
  moreover have "failed_round ex_scheduler ex_worker ex_failing ex_client 7 (ex_round ex_single) ?w"
    using ex_single_rounds(2) by (intro ex_round_fails ex_round_reachable ex_single_reachable) simp_all
  ultimately have n: "(failed_round ex_scheduler ex_worker ex_failing ex_client 7 ^^ 2) ex_single ?w"
    by (auto simp: numeral_2_eq_2)
  from ex_single_rounds(1) obtain t where t: "view ex_single 7 = Some t" "Status t = StatusPending" "rounds_left t = 2" by auto
  from retries_terminate [OF n t(1,2)] n t show ?thesis by auto
qed

theorem sys_step_life_cycle_witness:
  "\<exists>w. sys_step ex_client ex_start w \<and> length (tasks (db w)) = 1 \<and> evolves (view ex_start) (view w)"
proof -
  from ex_first_enqueue obtain tid w
    where e: "Enqueue_Handle gateway_enqueue ((ex_cmd ''noop'' [])\<lparr>c_Dependencies := []\<rparr>) ex_start = (Inr tid, w)"
      and n: "length (tasks (db w)) = 1" by (rule succeedsE)
  with sys_step_life_cycle [OF ex_reachable sys_step.enqueue [OF e]] sys_step.enqueue [OF e] show ?thesis by blast
qed

subsection \<open>Requests\<close>

lemma ex_enqueue:
  "succeeds (Enqueue_Handle gateway_enqueue (ex_cmd ''noop'' []) ex_world) (\<lambda>tid w. tid = ''aaaaaaa'')"
  by code_simp

theorem enqueue_stores_witness:
  "\<exists>w' k t'. Enqueue_Handle gateway_enqueue (ex_cmd ''noop'' []) ex_world = (Inr ''aaaaaaa'', w') \<and>
     view ex_world k = None \<and> view w' = (view ex_world)(k \<mapsto> t') \<and> Status t' = StatusPending \<and>
     Type t' = ''noop'' \<and> Priority t' = 3 \<and> RetryLimit t' = 2"
proof -
  from ex_enqueue obtain w' where e: "Enqueue_Handle gateway_enqueue (ex_cmd ''noop'' []) ex_world = (Inr ''aaaaaaa'', w')"
    by (auto elim: succeedsE)
  have "c_IdempotencyKey (ex_cmd ''noop'' []) = []" by (simp add: ex_cmd_def)
  from enqueue_stores [OF ex_inv(1) e this] e show ?thesis
    by (auto simp: ex_cmd_def fits_int32_def)
qed

lemma ex_lost_enqueue:
  "case Enqueue_Handle gateway_enqueue (ex_cmd ''noop'' []) ex_lost of (r, w') \<Rightarrow> isl r \<and> view w' 7 \<noteq> view ex_lost 7"
  by code_simp

theorem enqueue_refuses_witness:
  "(\<exists>e w'. Enqueue_Handle gateway_enqueue (ex_cmd '' '' []) ex_world = (Inl e, w') \<and>
     view w' = view ex_world \<and> (errors_Is e ErrInvalidArgument \<or> errors_Is e ErrInvalidPriority)) \<and>
   (\<exists>e w' k t'. Enqueue_Handle gateway_enqueue (ex_cmd ''noop'' []) ex_lost = (Inl e, w') \<and>
     view ex_lost k = None \<and> view w' = (view ex_lost)(k \<mapsto> t') \<and> Status t' = StatusPending \<and> Type t' = ''noop'')"
proof
  obtain r w' where h: "Enqueue_Handle gateway_enqueue (ex_cmd '' '' []) ex_world = (r, w')" by fastforce
  have "Validate (ex_cmd '' '' []) \<noteq> None" by code_simp
  then have "\<not> valid_cmd (ex_cmd '' '' [])" by (simp add: Validate_None_iff)
  with enqueue_refuses [OF ex_inv(1) h] h
  show "\<exists>e w'. Enqueue_Handle gateway_enqueue (ex_cmd '' '' []) ex_world = (Inl e, w') \<and>
     view w' = view ex_world \<and> (errors_Is e ErrInvalidArgument \<or> errors_Is e ErrInvalidPriority)" by auto
next
  obtain r w' where h: "Enqueue_Handle gateway_enqueue (ex_cmd ''noop'' []) ex_lost = (r, w')" by fastforce
  with ex_lost_enqueue have "isl r" "view w' \<noteq> view ex_lost" by auto
  moreover have "pg_inv ex_lost" using pg_frame [of ex_lost ex_world] ex_inv(1) by (simp add: ex_lost_def)
  ultimately obtain tid k t' at where "view ex_lost k = None" "created_as (new_task (ex_cmd ''noop'' []) at tid) t'"
    "view w' = (view ex_lost)(k \<mapsto> t')"
    using enqueue_refuses [OF _ h] by blast
  with h \<open>isl r\<close> show "\<exists>e w' k t'. Enqueue_Handle gateway_enqueue (ex_cmd ''noop'' []) ex_lost = (Inl e, w') \<and>
     view ex_lost k = None \<and> view w' = (view ex_lost)(k \<mapsto> t') \<and> Status t' = StatusPending \<and> Type t' = ''noop''"
    by (auto simp: isl_def created_as_def new_task_def ex_cmd_def)
qed

theorem enqueue_accepts_witness:
  "\<exists>w'. Enqueue_Handle gateway_enqueue (ex_cmd ''noop'' ''once'') ex_world =
       (Inr (uuid_String ex_lib 7), w') \<and> view w' 7 \<noteq> None"
proof -
  have ids: "new_ids ex_world 0 = 7" "lib ex_world = ex_lib" by (simp_all add: ex_world_def ex_on_def)
  have "Validate (ex_cmd ''noop'' ''once'') = None" by code_simp
  then have v: "valid_cmd (ex_cmd ''noop'' ''once'')" by (simp add: Validate_None_iff)
  have n: "view ex_world (new_ids ex_world 0) = None" by code_simp
  have k: "\<forall>r \<in> set (tasks (db ex_world)). r_idempotency_key r \<noteq> Some (c_IdempotencyKey (ex_cmd ''noop'' ''once''))"
    by code_simp
  have d: "map (key ex_world) (c_Dependencies (ex_cmd ''noop'' ''once'')) = map Some [1]"
    by (simp add: ex_cmd_def ex_key)
  show ?thesis
    using enqueue_accepts [OF ex_inv(1) ex_no_faults(1) v n disjI2 [OF k] d] ex_view(1) by (simp add: ids)
qed

lemma ex_twice:
  "succeeds (Enqueue_Handle gateway_enqueue (ex_cmd ''noop'' ''once'') ex_world) (\<lambda>tid w1.
     succeeds (Enqueue_Handle gateway_enqueue (ex_cmd ''other'' ''once'') w1) (\<lambda>tid2 w3. True))"
  by code_simp

theorem enqueue_idempotent_witness:
  "\<exists>tid w1 tid2 w3. Enqueue_Handle gateway_enqueue (ex_cmd ''noop'' ''once'') ex_world = (Inr tid, w1) \<and>
     Enqueue_Handle gateway_enqueue (ex_cmd ''other'' ''once'') w1 = (Inr tid2, w3) \<and>
     key ex_world tid2 = key ex_world tid \<and> view w3 = view w1"
proof -
  from ex_twice obtain tid w1 where a: "Enqueue_Handle gateway_enqueue (ex_cmd ''noop'' ''once'') ex_world = (Inr tid, w1)"
    and q: "succeeds (Enqueue_Handle gateway_enqueue (ex_cmd ''other'' ''once'') w1) (\<lambda>tid2 w3. True)"
    by (rule succeedsE)
  from q obtain tid2 w3 where b: "Enqueue_Handle gateway_enqueue (ex_cmd ''other'' ''once'') w1 = (Inr tid2, w3)"
    by (rule succeedsE)
  have "c_IdempotencyKey (ex_cmd ''noop'' ''once'') \<noteq> []"
    "c_IdempotencyKey (ex_cmd ''other'' ''once'') = c_IdempotencyKey (ex_cmd ''noop'' ''once'')"
    by (simp_all add: ex_cmd_def)
  from enqueue_idempotent [OF ex_inv(1) this a refl refl b] a b show ?thesis by blast
qed

theorem cancel_republish_exactly_witness:
  "\<exists>rc wc t' t'' wr. Cancel_Handle postgres_Repo ''aaaaa'' ex_world = (rc, wc) \<and> isl rc \<and> view wc = view ex_world \<and>
     Republish_Handle postgres_Repo ''aaaaa'' ex_world = (Inr t', wr) \<and>
     view wr = (view ex_world)(5 \<mapsto> t'') \<and> Status t'' = StatusPending \<and> AttemptCount t'' = 0"
proof -
  obtain rc wc where c: "Cancel_Handle postgres_Repo ''aaaaa'' ex_world = (rc, wc)" by fastforce
  obtain rr wr where r: "Republish_Handle postgres_Repo ''aaaaa'' ex_world = (rr, wr)" by fastforce
  from cancel_republish_exactly [OF ex_inv(1) ex_no_faults(1) ex_key(4) ex_view(4) c r] c r show ?thesis
    by (auto simp: status_literals)
qed

lemma ex_publish_ok: "\<not> isl (fst (Publish (recording ex_client) s i w))"
  by (simp add: Publish_def on_redis_def recording_def ex_client_def op_defs split: prod.splits)

lemma ex_pick_batch:
  "succeeds (PickAndMarkRunning (cs_BatchSize ex_scheduler) (ex_on ([] :: string list, [] :: history)))
     (\<lambda>ts w. map ID ts = [''aaa'', ''aa''])"
  by code_simp


theorem monitor_resets_stuck_witness:
  "no_faults ex_world \<and>
   map_option Status (view (heartbeat_check (scheduler_monitor ex_scheduler) ex_world) 4) = Some StatusPending"
proof -
  have "UpdatedAt (ex_task (ex_row 4 ''running'' 5 1000)) <
      timestamptz (time_Add (clock ex_world 0) (- cs_HBTimeout ex_scheduler))" by code_simp
  with monitor_resets_stuck [OF ex_no_faults(1), of ex_scheduler 4] ex_no_faults(1) show ?thesis
    by (simp add: ex_view status_literals)
qed

theorem cleanup_exact_witness:
  "\<exists>r w'. CleanupExpired 500000 ex_world = (r, w') \<and> view w' 6 = None \<and> view w' 1 \<noteq> None"
proof -
  obtain r w' where c: "CleanupExpired 500000 ex_world = (r, w')" by fastforce
  have "(case view ex_world 6 of None \<Rightarrow> False | Some t \<Rightarrow> terminal (Status t) \<and>
      UpdatedAt t < timestamptz (time_Add (clock ex_world 0) (- 500000)))" by code_simp
  then have "view w' 6 = None" using cleanup_exact [OF ex_inv(1) ex_no_faults(1) c, of 6] by (auto split: option.splits)
  moreover have "\<not> UpdatedAt (ex_task (ex_row 1 ''completed'' 5 900000)) <
      timestamptz (time_Add (clock ex_world 0) (- 500000))" by code_simp
  then have "view w' 1 \<noteq> None" using cleanup_exact [OF ex_inv(1) ex_no_faults(1) c, of 1] by (simp add: ex_view)
  ultimately show ?thesis using c by blast
qed

lemma ex_begin_inv: "pg_inv ex_begin"
  by (simp add: pg_inv_def ex_begin_def ex_on_def ex_uuid_ok statuses_ok_def) (simp add: empty_db_def)

lemma ex_fresh:
  "succeeds (Enqueue_Handle gateway_enqueue ((ex_cmd ''noop'' [])\<lparr>c_Dependencies := []\<rparr>) ex_begin) (\<lambda>tid w1.
     key ex_begin tid = Some 7 \<and> \<not> locked w1 7 \<and>
     (case view w1 7 of None \<Rightarrow> False | Some t \<Rightarrow> ScheduledAt t \<le> timestamptz (clock w1 0)) \<and>
     length (filter (ready (timestamptz (clock w1 0)) (db w1)) (tasks (db w1))) = 1)"
  by code_simp

lemma ex_crashed_reachable: "reachable (recording ex_client) ex_crashed"
proof -
  have "reachable (recording ex_client) ex_begin"
    by (rule reachable.start) (simp_all add: ex_begin_def ex_on_def ex_uuid_ok)
  from reachable.step [OF reachable.step [OF reachable.step [OF this sys_step.enqueue [OF prod.collapse [symmetric]]]
      sys_step.tick [OF prod.collapse [symmetric]]] sys_step.environment]
  show ?thesis unfolding ex_crashed_def by simp
qed

lemma ex_crashed_task:
  "case view ex_crashed 7 of None \<Rightarrow> False | Some t \<Rightarrow> Status t = StatusRunning \<and> Type t = ''noop'' \<and>
     UpdatedAt t < timestamptz (time_Add (clock ex_crashed 0) (- cs_HBTimeout ex_scheduler)) \<and>
     ScheduledAt t \<le> timestamptz (clock ex_reset 0)"
  by code_simp

lemma ex_reset_room:
  "\<not> locked ex_reset 7"
  "length (filter (ready (timestamptz (clock ex_reset 0)) (db ex_reset)) (tasks (db ex_reset))) = 1"
  by code_simp+

subsection \<open>The dependency graph\<close>

lemma ex_enqueued_reachable: "reachable ex_client ex_enqueued"
  unfolding ex_enqueued_def
  by (intro reachable.step [OF _ sys_step.enqueue [OF prod.collapse [symmetric]]] ex_reachable)

lemma ex_run_reachable: "reachable ex_client (ex_ticked (ex_worked (ex_ticked ex_enqueued)))"
  unfolding ex_ticked_def ex_worked_def
  by (rule reachable.step [OF reachable.step [OF reachable.step [OF ex_enqueued_reachable
      sys_step.tick [OF prod.collapse [symmetric]]] sys_step.work [OF prod.collapse [symmetric]]]
      sys_step.tick [OF prod.collapse [symmetric]]])

lemma ex_enqueued_db:
  "map_option Status (view ex_enqueued 8) = Some StatusPending \<and> task_dependencies (db ex_enqueued) = [(8, 7)]"
  by code_simp

lemma ex_run_db:
  "let w = ex_ticked (ex_worked (ex_ticked ex_enqueued)) in
     map_option Status (view w 8) = Some StatusRunning \<and> task_dependencies (db w) = [(8, 7)]"
  by code_simp

theorem dependencies_first_witness:
  "\<exists>w t t'. reachable ex_client w \<and> view w 8 = Some t \<and> Status t = StatusRunning \<and> (8, 7) \<in> dep_edges (db w) \<and>
     view w 7 = Some t' \<and> Status t' = StatusCompleted"
proof -
  let ?w = "ex_ticked (ex_worked (ex_ticked ex_enqueued))"
  obtain t where t: "view ?w 8 = Some t" "Status t = StatusRunning" using ex_run_db by (auto simp: Let_def)
  moreover have e: "(8, 7) \<in> dep_edges (db ?w)" using ex_run_db by (simp add: Let_def dep_edges_def)
  moreover have "\<exists>t'. view ?w 7 = Some t' \<and> Status t' = StatusCompleted"
    by (rule dependencies_doneD [OF dependencies_first [OF ex_run_reachable] t(1) _ e]) (simp add: t started_def)
  ultimately show ?thesis using ex_run_reachable by blast
qed

theorem reachable_acyclic_witness:
  "\<exists>w. reachable ex_client w \<and> dep_edges (db w) = {(8, 7)} \<and> acyclic (dep_edges (db w) - Id)"
  using reachable_acyclic [OF ex_enqueued_reachable] ex_enqueued_reachable ex_enqueued_db
  by (auto simp: dep_edges_def)

lemma ex_create: "\<exists>d. Create ex_new ex_world = (Inr (), ex_world\<lparr>db := d\<rparr>)"
proof (rule Create_total [OF ex_no_faults(1)])
  show "schema_ok (db ex_world)" "Priority ex_new \<le> 10" "key ex_world (ID ex_new) = Some 7"
    "view ex_world 7 = None" by code_simp+
  show "map (key ex_world) (Dependencies ex_new) = map Some [1]"
    by (simp add: ex_new_def new_task_def ex_cmd_def ex_key)
qed (simp_all add: ex_view, simp add: ex_new_def new_task_def ex_cmd_def)

theorem create_then_get_witness:
  "\<exists>w1 t'. Create ex_new ex_world = (Inr (), w1) \<and> GetByID (ID ex_new) w1 = (Inr t', w1) \<and> created_as ex_new t'"
proof -
  from ex_create obtain d where c: "Create ex_new ex_world = (Inr (), ex_world\<lparr>db := d\<rparr>)" by blast
  have "known_status (Status ex_new)" by code_simp
  moreover have "no_faults (ex_world\<lparr>db := d\<rparr>)" using ex_no_faults(1) by simp
  ultimately show ?thesis using create_then_get [OF ex_inv(1) c _ _ refl refl] c by blast
qed

theorem pending_no_deadlock_witness:
  "\<exists>w u. reachable ex_client w \<and> (8, u) \<in> (dep_edges (db w))\<^sup>* \<and>
     (runnable w 1000000 u \<or> holds_up w 1000000 u \<or> (u, u) \<in> dep_edges (db w))"
proof -
  from ex_enqueued_db obtain t where "view ex_enqueued 8 = Some t" "Status t = StatusPending" by auto
  from pending_no_deadlock [OF ex_enqueued_reachable this, of 1000000] ex_enqueued_reachable show ?thesis by blast
qed

lemma ex_deps_reach: "(dep_graph ex_deps)\<^sup>* `` {''a''} \<subseteq> {''a'', ''b''}"
proof -
  have "y \<in> {''a'', ''b''}" if "(''a'', y) \<in> (dep_graph ex_deps)\<^sup>*" for y
    using that by (induction rule: rtrancl_induct) (auto simp: dep_graph_def ex_deps_def split: if_splits)
  then show ?thesis by blast
qed

theorem CheckCycle_correct_witness:
  "\<exists>e. CheckCycle 3 ''a'' ex_deps = Some (Some e) \<and> errors_Is e ErrCyclicDependency \<and> cycle_from ex_deps ''a''"
proof -
  have f: "finite ((dep_graph ex_deps)\<^sup>* `` {''a''})" using ex_deps_reach by (rule finite_subset) simp
  have "card ((dep_graph ex_deps)\<^sup>* `` {''a''}) \<le> card {''a'', ''b''}" using ex_deps_reach by (rule card_mono [rotated]) simp
  then have "card ((dep_graph ex_deps)\<^sup>* `` {''a''}) < 3" by simp
  from CheckCycle_correct [OF f this] obtain r where r: "CheckCycle 3 ''a'' ex_deps = Some r"
    "r = None \<longleftrightarrow> \<not> cycle_from ex_deps ''a''" "\<forall>e. r = Some e \<longrightarrow> errors_Is e ErrCyclicDependency" by blast
  have "CheckCycle 3 ''a'' ex_deps \<noteq> Some None" by code_simp
  with r show ?thesis by auto
qed

subsection \<open>Broker, gateway and listing\<close>

theorem consume_in_order_witness:
  "\<exists>s' got c. consume (Suc 1) (traced ex_reader) ''s'' ''g'' ''c'' (\<lambda>i. 9 \<le> i) ([], []) = (False, (s', got), c) \<and>
     length got = 5 \<and> prefix (ch c) (deliveries got) \<and> ch c = deliveries got"
proof -
  let ?run = "consume (Suc 1) (traced ex_reader) ''s'' ''g'' ''c'' (\<lambda>i. 9 \<le> i) ([], [])"
  obtain stopped s' got c where r: "?run = (stopped, (s', got), c)" by (metis prod.collapse)
  have "fst ?run = False \<and> length (snd (fst (snd ?run))) = 5" by code_simp
  then have "\<not> stopped" "length got = 5" unfolding r by simp_all
  with consume_in_order [OF r] r show ?thesis by auto
qed

theorem GetTask_answers_witness:
  "\<exists>st w'. GetTask ex_pb gateway_server ''zz'' ex_world = (Inl st, w') \<and> st_code st = Internal"
proof -
  have "\<forall>e. uuid_Parse (lib ex_world) ''zz'' = Inl e \<longrightarrow> \<not> domain_sentinel (root_cause e)"
    by (simp add: ex_world_def ex_on_def ex_lib_def ex_Parse_def)
  from GetTask_answers [OF ex_no_faults(1) this, of ex_pb] show ?thesis by (simp add: ex_key)
qed

theorem answers_well_formed_witness:
  "\<exists>p. answers ex_pb ex_client ex_enqueued p \<and> p_Status p = TASK_STATUS_PENDING \<and> p_Type p = ''noop'' \<and> well_formed p"
proof -
  have "succeeds (GetTask ex_pb gateway_server ''aaaaaaa'' ex_enqueued)
      (\<lambda>p w'. p_Status p = TASK_STATUS_PENDING \<and> p_Type p = ''noop'')" by code_simp
  then obtain p w' where p: "GetTask ex_pb gateway_server ''aaaaaaa'' ex_enqueued = (Inr p, w')"
    "p_Status p = TASK_STATUS_PENDING \<and> p_Type p = ''noop''" by (rule succeedsE)
  from answers.get [OF p(1)] have "answers ex_pb ex_client ex_enqueued p" .
  with answers_well_formed [OF ex_enqueued_reachable this] p(2) show ?thesis by blast
qed

theorem stream_follows_witness:
  "\<exists>p q. fst (StreamTaskUpdates ex_pb gateway_server ''aa'' None
       [StreamTicker id None, ServerCtxDone,
        StreamTicker (\<lambda>w. w\<lparr>db := snd (update_where (\<lambda>r. True) (\<lambda>r. r\<lparr>r_status := ''completed''\<rparr>) (db w))\<rparr>) None] ex_world) =
       (StreamOK, [p, p, q]) \<and>
     p_Status p = TASK_STATUS_PENDING \<and> p_Status q = TASK_STATUS_COMPLETED"
proof -
  let ?f = "\<lambda>w. w\<lparr>db := snd (update_where (\<lambda>r. True) (\<lambda>r. r\<lparr>r_status := ''completed''\<rparr>) (db w))\<rparr>"
  let ?t = "ex_task (ex_row 2 ''pending'' 5 910000)" and ?es = "[StreamTicker id None, ServerCtxDone]"
  have b: "list_all undisturbed ?es" "benign ?f" by (simp_all add: benign_def key_def fun_eq_iff)
  have "map_option (\<lambda>t. (finished t, statusToProto (Status t))) (view (?f ex_world) 2) = Some (True, 3)" by code_simp
  then obtain t where t: "view (?f ex_world) 2 = Some t" "finished t" "statusToProto (Status t) = TASK_STATUS_COMPLETED"
    by (auto simp: TASK_STATUS_COMPLETED_def)
  have p: "polls ex_world 2 ?es = map Some [?t]" using ex_view(2) by simp
  have u: "list_all (\<lambda>t. \<not> finished t) [?t]" using ex_statuses(3) by (simp add: finished_def)
  have "statusToProto (Status ?t) = TASK_STATUS_PENDING" using ex_statuses(3) by (simp add: statusToProto_def)
  moreover have "fst (StreamTaskUpdates ex_pb gateway_server ''aa'' None (?es @ [StreamTicker ?f None]) ex_world) =
      (StreamOK, map (taskToProto ex_pb) [?t, ?t] @ [taskToProto ex_pb t])"
    using conjunct1 [OF conjunct2 [OF conjunct2 [OF
          stream_follows [OF ex_no_faults(1) ex_key(2) ex_view(2) b(1) p u refl refl refl, of ex_pb "[]"]]],
        rule_format, of ?f t] b(2) t(1,2) by simp
  ultimately show ?thesis
    using t(3) by (intro exI [of _ "taskToProto ex_pb ?t"] exI [of _ "taskToProto ex_pb t"]) (simp add: taskToProto_def)
qed

text \<open>Two pages of different orders for equal creation times, and for the tasks of the example.\<close>

definition ex_page :: "nat \<Rightarrow> string list world" where
  "ex_page p = ex_world\<lparr>ties := (\<lambda>_ u. if even p then unat u else 9 - unat u)\<rparr>"

definition ex_all :: ListFilter where
  "ex_all = \<lparr>f_Status = [], f_Type = ''noop'', f_Page = 0, f_PageSize = 0\<rparr>"

lemma equal_times_repeat:
  "let twins = db_update (tasks_update (\<lambda>_. [ex_row 2 ''pending'' 5 1000, ex_row 3 ''pending'' 7 1000])) in
   map (\<lambda>p. map ID (page_tasks (at_page p 1 ex_all) (twins (ex_page p)))) [1, 2] = [[''aaa''], [''aaa'']]"
  by code_simp

theorem list_pages_witness:
  "concat (map (\<lambda>p. page_tasks (at_page p 2 ex_all) (ex_page p)) [1..<Suc 3]) = take (3 * 2) (listing ex_all ex_world) \<and>
   length (listing ex_all ex_world) = 6"
proof -
  have "distinct (map CreatedAt (listing ex_all ex_world))" "length (listing ex_all ex_world) = 6" by code_simp+
  moreover have "no_faults (ex_page p) \<and> lib (ex_page p) = lib ex_world \<and>
      mset (tasks (db (ex_page p))) = mset (tasks (db ex_world))" for p
    using ex_no_faults(1) by (simp add: ex_page_def)
  ultimately show ?thesis using list_pages [of 2 3 ex_page ex_world, OF _ _ _ refl, of ex_all] by simp
qed

subsection \<open>Starting the processes\<close>

theorem processes_release_witness:
  "restores (\<lambda>b. (Inr (), b)) \<and> restores (RunScheduler ex_scheduler (\<lambda>b. (Inr (), b))) \<and>
   (\<exists>r b'. RunAPIGateway ex_gateway (\<lambda>b. (Inr (), b)) ex_boot = (r, b') \<and> returns r \<and> held b' = [SqlDB] \<and>
      (\<exists>h. r = Inl (annotate ''app/apigateway: migrate: '' h)))"
proof -
  let ?run = "RunAPIGateway ex_gateway (\<lambda>b. (Inr (), b)) ex_boot"
  obtain r b' where g: "?run = (r, b')" by fastforce
  have "returns (fst ?run) \<and> held (snd ?run) = [SqlDB]" by code_simp
  then have r: "returns r" "held b' = [SqlDB]" unfolding g by simp_all
  moreover have "held ex_boot = []" by code_simp
  ultimately show ?thesis
    using processes_release [OF restores_pure [of "Inr ()"], of ex_scheduler ex_worker ex_gateway ex_boot r b'] g restores_pure
    by fastforce
qed

lemma ex_group_ok: "errgroup_ok ex_group"
  unfolding errgroup_ok_def
proof (intro allI)
  fix ctx ss
  define c where "c = (ctx \<or> (\<exists>s \<in> set ss. service_failed (s False)))"
  let ?ends = "map (\<lambda>s. s c) ss"
  have g: "ex_group ctx ss = (if ServicePanicked \<in> set ?ends then Inl Panicking
      else if ServiceRunning \<in> set ?ends then Inl Blocked
      else (case find service_failed ?ends of Some (ServiceReturned (Inl err)) \<Rightarrow> Inl (Err err) | _ \<Rightarrow> Inr ()))"
    by (simp add: ex_group_def c_def list_ex_iff Let_def)
  have none: "find service_failed ?ends = None" if "set ?ends \<subseteq> {ServiceReturned (Inr ())}"
    using that by (auto simp: find_None_iff service_failed_def)
  have some: "\<exists>err. (case find service_failed ?ends of
       Some (ServiceReturned (Inl err)) \<Rightarrow> Inl (Err err) | _ \<Rightarrow> Inr ()) = Inl (Err err) \<and> ServiceReturned (Inl err) \<in> set ?ends"
    if "\<exists>e \<in> set ?ends. service_failed e"
  proof (cases "find service_failed ?ends")
    case None
    then show ?thesis using that by (auto simp: find_None_iff)
  next
    case (Some e)
    then have "e \<in> set ?ends" "service_failed e" by (metis find_Some_iff nth_mem)+
    then obtain err where "e = ServiceReturned (Inl err)" "ServiceReturned (Inl err) \<in> set ?ends"
      unfolding service_failed_def by blast
    with Some show ?thesis by (intro exI [of _ err]) simp
  qed
  show "let cancelled = ctx \<or> (\<exists>s \<in> set ss. service_failed (s False)); ends = (\<lambda>s. s cancelled) ` set ss in
     (ServicePanicked \<in> ends \<longrightarrow> ex_group ctx ss = Inl Panicking) \<and>
     (ServicePanicked \<notin> ends \<longrightarrow> ServiceRunning \<in> ends \<longrightarrow> ex_group ctx ss = Inl Blocked) \<and>
     (ends \<subseteq> {ServiceReturned (Inr ())} \<longrightarrow> ex_group ctx ss = Inr ()) \<and>
     (ends \<subseteq> range ServiceReturned \<longrightarrow> (\<exists>e \<in> ends. service_failed e) \<longrightarrow>
        (\<exists>err. ex_group ctx ss = Inl (Err err) \<and> ServiceReturned (Inl err) \<in> ends))"
    unfolding c_def [symmetric] Let_def set_map [symmetric] g using none some by (auto split: if_splits)
qed

lemma ex_process:
  "boots ex_boots" "held ex_boots = []" "http_server_ok ex_listener" "ex_listener False = None"
  "0 < sint (cs_PollInterval (LoadScheduler ex_env))" "1 < sint (cs_HBTimeout (LoadScheduler ex_env))"
  "\<not> isl (fst (Subscribe ex_client taskStreamConst workerGroupName ex_world))"
  "list_all (\<lambda>(d, call, xs). \<exists>x \<in> set xs. x \<noteq> HbTicker) [(ex_delivery ''aaaa'', 0, [HandlerReturned])]"
  "NotifyContext False [SIGHUP, SIGTERM]"
  by (simp_all add: boots_def ex_boots_def held_def http_server_ok_def ex_listener_def NotifyContext_def LoadScheduler_def
      ex_env_def envOr_def envDuration_def time_Millisecond_def time_Second_def Subscribe_def on_redis_def ex_client_def)

theorem clean_shutdown_witness:
  "fst (scheduler_main ex_env ex_group [SIGHUP, SIGTERM] ex_client 2 1 ex_listener ex_world ex_boots) = Exited 0 \<and>
   fst (worker_main ex_env ex_group [SIGHUP, SIGTERM] ex_client [(ex_delivery ''aaaa'', 0, [HandlerReturned])] ex_listener
     ex_world ex_boots) = Exited 0 \<and>
   (\<exists>b. apigateway_main ex_env ex_group [SIGHUP, SIGTERM] (Inr ()) ex_rpc ex_listener ex_boots = (Exited 0, b) \<and> held b = [])"
proof -
  have "grpc_server_ok False ex_rpc" "ex_rpc False = None" by (simp_all add: grpc_server_ok_def ex_rpc_def)
  from clean_shutdown [OF ex_group_ok ex_process(9,1,3-6,8,7) this, of 2 1] show ?thesis
    by (auto simp: ex_process(2))
qed

theorem failure_stops_process_witness:
  "fst (scheduler_main ex_env ex_group [] ex_client 2 1 (\<lambda>_. Some ex_in_use) ex_world ex_boots) = Exited 1 \<and>
   (\<exists>b. worker_main ex_env ex_group [] ex_client [] (\<lambda>_. Some ex_in_use) ex_world ex_boots = (Exited 1, b) \<and> held b = []) \<and>
   fst (scheduler_main ex_hasty ex_group [] ex_client 2 1 ex_listener ex_world ex_boots) = Crashed"
proof -
  have las: "http_server_ok (\<lambda>_. Some ex_in_use)" "ex_in_use \<noteq> http_ErrServerClosed" "\<not> errors_Is ex_in_use ContextCanceled"
    by (simp add: http_server_ok_def) code_simp+
  have none: "list_all (\<lambda>(d, call, xs). \<exists>x \<in> set xs. x \<noteq> HbTicker) []" by simp
  have "\<not> 1 < sint (cs_HBTimeout (LoadScheduler ex_hasty))" by code_simp
  then show ?thesis
    using failure_stops_process [OF ex_group_ok ex_process(1) none ex_process(7) refl, of ex_env "[]" 2 1 "\<lambda>_. Some ex_in_use"]
      failure_stops_process [OF ex_group_ok ex_process(1) none ex_process(7) refl, of ex_hasty "[]" 2 1 ex_listener]
      ex_process(5,6) las
    by (auto simp: ex_process(2))
qed

theorem stream_delays_shutdown_witness:
  "fst (apigateway_main ex_env ex_group [SIGHUP, SIGTERM] (Inr ()) (\<lambda>_. None) ex_listener ex_boots) = StillRunning \<and>
   fst (apigateway_main ex_env ex_group [SIGHUP, SIGTERM] (Inr ()) ex_rpc ex_listener ex_boots) = Exited 0"
proof -
  let ?es = "[StreamTicker id None, ServerCtxDone, StreamTicker id None]" and ?t = "ex_task (ex_row 2 ''pending'' 5 910000)"
  let ?calls = "[(''aa'', None, ?es)]"
  have es: "ServerCtxDone \<in> set ?es" "list_all undisturbed ?es" "polls ex_world 2 ?es = map Some [?t, ?t]"
    by (simp_all add: benign_def ex_view(2))
  have u: "list_all (\<lambda>t. \<not> finished t) [?t, ?t]" using ex_statuses(3) by (simp add: finished_def)
  have "streams_open ex_pb ?calls ex_world"
    using stream_follows_prefix [OF ex_no_faults(1) ex_key(2) ex_view(2) es(2,3) u, of ex_pb "[]"]
    by (simp add: streams_open_def)
  then have blocked: "grpc_server_ok (streams_open ex_pb ?calls ex_world) (\<lambda>_. None)" by (simp add: grpc_server_ok_def)
  have "\<not> streams_open ex_pb [(''aa'', None, ?es @ [StreamCtxDone])] ex_world"
    using stream_ends_with_client by (simp add: streams_open_def del: append.simps)
  then have free: "grpc_server_ok (streams_open ex_pb (map (\<lambda>(i, send, es). (i, send, es @ [StreamCtxDone])) ?calls) ex_world) ex_rpc"
    by (simp add: grpc_server_ok_def ex_rpc_def)
  have rpc: "ex_rpc False = None" by (simp add: ex_rpc_def)
  from stream_delays_shutdown [OF ex_group_ok ex_process(9,1,3,4) _ ex_no_faults(1) ex_key(2) ex_view(2) es u refl blocked rpc free]
  show ?thesis by simp
qed

end
