(* ===== verification/Spec2Isabelle.thy ===== *)
theory Spec2Isabelle
  imports Domain_Dag Listing Dependencies Fairness Retries Metrics_Registry Lifecycle Witnesses
begin

text \<open>
  A verification of \<^bold>\<open>rsufz\<close>, a distributed task queue: clients register tasks over gRPC, a
  scheduler moves due tasks from PostgreSQL to a Redis stream, workers execute them.

  \<^bold>\<open>The program.\<close> Three processes share two stores. The API gateway validates a request and writes a
  row to \<^verbatim>\<open>tasks\<close> (and its dependencies to \<^verbatim>\<open>task_dependencies\<close>). The scheduler picks pending rows
  that are due and whose dependencies are completed, marks them running in one transaction and
  publishes their identifiers; a second loop puts running tasks back to pending whose heartbeat is
  too old. A worker reads identifiers from a consumer group, runs the handler registered for the
  task's type while it sends heartbeats, and records the outcome: completed, pending again with a
  backoff, or failed and sent to the dead-letter stream.

  \<^bold>\<open>The model\<close>, theory by theory, with the code under \<^verbatim>\<open>src/\<close> it translates:

  \<^item> \<open>Prelude\<close>: Go's integers at their width, times, and fallible operations on a state (\<open>andThen\<close>,
    \<open>onError\<close>, \<open>mapM\<close>, \<open>foldM\<close>). \<open>Go_Errors\<close>: error values, \<^verbatim>\<open>errors.Is\<close> (\<^verbatim>\<open>internal/domain/errors.go\<close>).
    \<open>Go_Json\<close>, \<open>Go_Strconv\<close>: the scanner behind \<^verbatim>\<open>json.Valid\<close>, and \<^verbatim>\<open>strconv.Atoi\<close>. \<open>Json_Grammar\<close>: the
    grammar of RFC 8259, and that the scanner accepts exactly its texts.
  \<^item> \<open>Domain_Task\<close>, \<open>Domain_Backoff\<close>, \<open>Domain_Dag\<close>: \<^verbatim>\<open>internal/domain/task.go\<close>, \<^verbatim>\<open>backoff.go\<close>, \<^verbatim>\<open>dag.go\<close>.
  \<^item> \<open>Database\<close>: the schema (\<^verbatim>\<open>migrations/001_init.sql\<close>) and the SQL statements of the repository as
    functions on tables, with their constraints. \<open>World\<close>: the environment of a process (tables,
    Redis, clock readings, new identifiers, driver outcomes, rows locked by others, metrics).
  \<^item> \<open>Ports\<close>: the interfaces of \<^verbatim>\<open>internal/usecase/ports.go\<close> as records of operations.
    \<open>Postgres_Repo\<close>: every method of \<^verbatim>\<open>internal/adapter/repo/postgres/repo.go\<close>. \<open>Redis_Broker\<close>:
    \<^verbatim>\<open>internal/adapter/broker/redis/broker.go\<close>. \<open>Platform\<close>, \<open>Metrics_Registry\<close>: metrics, configuration,
    log level, identifiers (\<^verbatim>\<open>internal/adapter/metrics\<close>, \<^verbatim>\<open>internal/platform\<close>).
  \<^item> \<open>Enqueue\<close>, \<open>Task_Use_Cases\<close>, \<open>Registry\<close>, \<open>Schedule\<close>, \<open>Execute\<close>: the use cases
    (\<^verbatim>\<open>internal/usecase\<close>), each with the whole body of its handlers and loops.
  \<^item> \<open>System\<close>: the wiring of \<^verbatim>\<open>internal/app\<close> and the step relation of the whole system.
    \<open>Grpc_Server\<close>: handlers, mapping, error codes, streaming and interceptors of
    \<^verbatim>\<open>internal/adapter/grpcserver\<close>. \<open>Bootstrap\<close>: what the processes acquire and release (\<^verbatim>\<open>internal/app\<close>,
    tracing, migrations). \<open>Lifecycle\<close>: the \<^verbatim>\<open>main\<close> functions, signals, the two \<^verbatim>\<open>Serve\<close> functions and
    the groups of goroutines (\<^verbatim>\<open>cmd\<close>, \<^verbatim>\<open>internal/platform/shutdown\<close>).

  \<^bold>\<open>Contracts and refinement.\<close> \<open>Repository_Contract\<close> states what the use cases rely on of a
  repository, the locale \<open>task_repository\<close>: an abstract state \<open>view\<close> (a map from keys to tasks), an
  invariant, and a law for every method. \<open>Postgres_Laws\<close> and \<open>Postgres_Contract\<close> interpret it on the
  PostgreSQL adapter. \<open>Use_Case_Contract\<close> adds the side ports and gives the locale \<open>use_cases\<close>, in
  which every use case is verified once; \<open>System\<close> interprets it on the production wiring.
  \<open>broker_log\<close> (\<open>Schedule\<close>) is what a scheduler needs of a broker: the order of what was published;
  it is interpreted on the Redis broker over any client with a history of its calls.

  \<^bold>\<open>What is shown.\<close>

  \<^item> Dispatch (\<open>Dispatch\<close>): only runnable tasks, in order, maximal batches, never one task twice;
    no task starves behind a finite queue (\<open>Fairness\<close>).
    In every reachable state (\<open>Dependencies\<close>) what was started has its dependencies completed, the
    stored graph has no cycle but that of a task naming itself, and pending tasks do not deadlock.
  \<^item> Execution (\<open>Execute\<close>, \<open>Outcomes\<close>): the three outcomes of a delivery and the one of a worker
    whose context ends, that processing is
    confined to its task under every failure (\<open>System\<close>), and that the attempts of a failing task
    come to an end (\<open>Retries\<close>).
  \<^item> The system (\<open>System\<close>): in every reachable state, over every interleaving and with every pattern of
    driver and broker failures, the tables satisfy their constraints, and a step keeps every task's
    identity and moves its status once along the transition table, if at all. Requests with one idempotency key may race between lookup and
    insertion, and deliveries of one task between reading and settling. Below, a task's way through
    all three processes, and that of a task whose worker died.
  \<^item> Requests (\<open>Requests\<close>, \<open>Listing\<close>, \<open>Postgres_Total\<close>): what each request stores, that refused ones
    store nothing and failed ones nothing or the whole task, that acceptable ones succeed,
    idempotency, paging up to the order of equal creation times; which payloads are JSON
    (\<open>Json_Grammar\<close>).
  \<^item> Errors: a repository call that fails has changed nothing, or, when a call was carried out but
    not confirmed, has done all of its work (\<open>Postgres_Contract\<close>); error codes by cause and
    recovery from panics (\<open>Grpc_Server\<close>); resources at start and stop (\<open>Bootstrap\<close>); how signals and
    failing servers end a process, that intervals that are not positive crash the scheduler, and
    that an open stream, which is blind to the context of the process, delays its end (\<open>Lifecycle\<close>).
  \<^item> Messages: a consumer gets the new entries of its group once each and in order (\<open>Redis_Broker\<close>);
    a stream reports what its polls see and ends by what comes next (\<open>Grpc_Server\<close>); what the gateway sends is well typed in
    every reachable state (\<open>Messages\<close>).
  \<^item> Numbers and termination: backoff on 64-bit words, the cycle check, the end of the reading
    goroutine.
  \<^item> \<open>Witnesses\<close>: each property with hypotheses at a concrete input.

  \<^bold>\<open>Fuel and events.\<close> \<^verbatim>\<open>CheckCycle\<close> has one unit of fuel per call on the stack and one more than the
  number of reachable tasks is proved to be enough. \<^verbatim>\<open>readLoop\<close> has one unit per iteration; as many
  as there are looks at the context before it is done are enough. A loop over a \<^verbatim>\<open>select\<close> (scheduler,
  monitor, worker, stream) is a function of the sequence of its outcomes and says whether it has
  returned; the goroutine of a handler is the event of its return. A handler that panics ends its
  worker (nothing recovers in that goroutine), after whatever steps it had taken.

  \<^bold>\<open>Assumptions of the model.\<close> A method of the repository is one atomic step; row locks of other
  transactions show as \<open>locked\<close>. A call to the driver may fail before the server has carried it out
  (\<open>Failed\<close>) or after (\<open>Unconfirmed\<close>): a \<^verbatim>\<open>COMMIT\<close>, or a single statement on the pool, that reports an error may
  have been applied, while an error inside a transaction rolls it back. Errors of the server that
  the statements here do not produce (encodings, timeouts) are failures of the driver; a context
  that has ended shows as a driver that fails. The order of rows in a table is free: a step of the
  system may change it; and where the \<^verbatim>\<open>ORDER BY\<close> of \<^verbatim>\<open>List\<close> leaves rows tied, every query has an order of its own
  (\<open>ties\<close>). A mutation reads the clock once, as \<^verbatim>\<open>TransitionTo\<close> does. Go code outside the repository that is not of the
  standard library is a parameter: the UUID library (\<open>uuid_ok\<close>: parsing reads back what printing
  wrote), the Redis client, the timestamp messages, the registry of metrics, \<^verbatim>\<open>errgroup\<close> and the gRPC server
  (\<open>errgroup_ok\<close>, \<open>grpc_server_ok\<close>: what their documentation says of \<^verbatim>\<open>Wait\<close> and \<^verbatim>\<open>GracefulStop\<close>). Of the
  standard library, the HTTP server (\<open>http_server_ok\<close>), \<^verbatim>\<open>%q\<close> (only in texts of
  errors), \<^verbatim>\<open>time.ParseDuration\<close> (floating point) and the process environment are parameters too.

  \<^bold>\<open>Not modelled.\<close> Log lines and spans (no state); what the gRPC and HTTP libraries do between
  a request and its handler; the capacity of the delivery channel (a full one only delays a send);
  the outbox table (no code uses it); the embedding of the migrations; generated code, whose
  messages are records here.
\<close>

lemma new_task_runnable:
  assumes "pg_inv w" "Enqueue_Handle gateway_enqueue cmd w = (Inr tid, w1)"
    and "c_IdempotencyKey cmd = []" "c_Dependencies cmd = []" "key w tid = Some k" "view w1 k = Some t"
    and "ScheduledAt t \<le> now"
  shows "pg_inv w1 \<and> key w1 = key w \<and> runnable w1 now k \<and> Type t = c_Type cmd \<and> Payload t = c_Payload cmd"
  using assms(1,2) unfolding gateway_enqueue_def
proof (cases rule: prod.Enqueue_cases)
  case (created tid' k' t' at)
  then have "k' = k" "t' = t" using assms(5,6) by auto
  with created have "map (key w) (Dependencies t) = []" "Status t = StatusPending" "Type t = c_Type cmd"
    "Payload t = c_Payload cmd"
    using assms(4) by (simp_all add: created_as_def new_task_def)
  with created assms(6,7) show ?thesis by (auto simp: runnable_def)
qed (use assms(3) in auto)

text \<open>
  From the queue to the end: a runnable task that a tick has room for is published, and a worker
  that receives it completes it.
\<close>

lemma queued_to_completion:
  assumes "pg_inv w2" "no_faults w2" "runnable w2 (timestamptz (clock w2 0)) k" "\<not> locked w2 k" "view w2 k = Some t"
    and "int (length (filter (ready (timestamptz (clock w2 0)) (db w2)) (tasks (db w2)))) \<le> sint (int32_of_int (cs_BatchSize scfg))"
    and "tick (scheduler_loop scfg (recording rc)) w2 = (r, w3)" "\<forall>s i w. \<not> isl (fst (Publish (recording rc) s i w))"
    and "db w4 = db w3" "lib w4 = lib w3" "no_faults w4" "d_TaskID d = ID t"
    and "handlers reg (Type t) = Some h" "er_err (h call (Payload t)) = None"
  shows "(taskStream, ID t) \<in> set (published (snd (rdb w3))) \<and>
     (\<exists>w5 t5. process (worker_execute wcfg reg rc') d call (replicate n HbTicker @ HandlerReturned # es) w4 = (True, w5) \<and>
        view w5 = (view w4)(k \<mapsto> t5) \<and> same_identity t t5 \<and> Status t5 = StatusCompleted \<and>
        Result t5 = er_result (h call (Payload t)))"
proof -
  from tick_dispatches [OF assms(1-8)] obtain at
    where w3: "pg_inv w3" "key w3 = key w2" "(taskStream, ID t) \<in> set (published (snd (rdb w3)))"
      "view w3 k = Some (t\<lparr>Status := StatusRunning, UpdatedAt := at\<rparr>)" (is "_ = Some ?t") by blast
  have w4: "pg_inv w4" "key w4 = key w2" "view w4 k = Some ?t" using pg_frame [OF assms(10,9)] w3 by simp_all
  have "key w4 (d_TaskID d) = Some k" using view_key [OF assms(1,5)] w4(2) assms(12) by simp
  from process_completes [OF w4(1) assms(11) this w4(3), of reg h call wcfg rc' n es] assms(13,14)
  obtain w5 t5 where "process (worker_execute wcfg reg rc') d call (replicate n HbTicker @ HandlerReturned # es) w4 = (True, w5)"
     "view w5 = (view w4)(k \<mapsto> t5)" "same_identity ?t t5" "Status t5 = StatusCompleted" "Result t5 = er_result (h call (Payload t))"
    by auto
  moreover have "same_identity t ?t" by (simp add: same_identity_def)
  ultimately show ?thesis using w3(3) same_identity_trans by blast
qed

text \<open>
  C7. A task's way through the three processes. A task enqueued without dependencies and without
  an idempotency key, on any consistent tables, is published to the task stream by a scheduler's
  tick at which it is due, its row is free and the batch has room for every ready task, with a
  Redis that accepts every entry; and a worker that then receives it, with a handler for its type
  that succeeds, after any number of heartbeats leaves it completed with the handler's result,
  under the identity it was enqueued with. Between the three steps clocks, locks, the driver and
  Redis may change; the driver does not fail in the tick and in the worker.
\<close>

theorem enqueue_to_completion:
  assumes "pg_inv w" "Enqueue_Handle gateway_enqueue cmd w = (Inr tid, w1)"
    and "c_IdempotencyKey cmd = []" "c_Dependencies cmd = []" "key w tid = Some k" "view w1 k = Some t"
    and "db w2 = db w1" "lib w2 = lib w1" "no_faults w2" "\<not> locked w2 k" "ScheduledAt t \<le> timestamptz (clock w2 0)"
    and "int (length (filter (ready (timestamptz (clock w2 0)) (db w2)) (tasks (db w2)))) \<le> sint (int32_of_int (cs_BatchSize scfg))"
    and "tick (scheduler_loop scfg (recording rc)) w2 = (r, w3)" "\<forall>s i w. \<not> isl (fst (Publish (recording rc) s i w))"
    and "db w4 = db w3" "lib w4 = lib w3" "no_faults w4" "d_TaskID d = ID t"
    and "handlers reg (c_Type cmd) = Some h" "er_err (h call (c_Payload cmd)) = None"
  shows "(taskStream, ID t) \<in> set (published (snd (rdb w3))) \<and>
     (\<exists>w5 t5. process (worker_execute wcfg reg rc') d call (replicate n HbTicker @ HandlerReturned # es) w4 = (True, w5) \<and>
        view w5 = (view w4)(k \<mapsto> t5) \<and> same_identity t t5 \<and> Status t5 = StatusCompleted \<and>
        Result t5 = er_result (h call (c_Payload cmd)))"
proof -
  have new: "pg_inv w1" "key w1 = key w" "runnable w1 (timestamptz (clock w2 0)) k" "Type t = c_Type cmd" "Payload t = c_Payload cmd"
    using new_task_runnable [OF assms(1-6,11)] by simp_all
  have w2: "pg_inv w2" "key w2 = key w" "view w2 = view w1" using pg_frame [OF assms(8,7)] new(1,2) by simp_all
  then have "runnable w2 (timestamptz (clock w2 0)) k" "view w2 k = Some t"
    using new(2,3) assms(6) by (simp_all add: runnable_def)
  from queued_to_completion [OF w2(1) assms(9) this(1) assms(10) this(2) assms(12-18)] new(4,5) assms(19,20)
  show ?thesis by simp
qed

theorem enqueue_to_completion_witness:
  "\<exists>tid w1 r w3 d w5 t5.
     Enqueue_Handle gateway_enqueue ((ex_cmd ''noop'' [])\<lparr>c_Dependencies := []\<rparr>) ex_begin = (Inr tid, w1) \<and>
     tick (scheduler_loop ex_scheduler (recording ex_client)) (w1\<lparr>faults := \<lambda>_. None\<rparr>) = (r, w3) \<and>
     process (worker_execute ex_worker (ex_registry None) (recording ex_client)) d 0 [HandlerReturned]
       (w3\<lparr>faults := \<lambda>_. None\<rparr>) = (True, w5) \<and>
     view w5 7 = Some t5 \<and> Status t5 = StatusCompleted \<and> Result t5 = Some [1]"
proof -
  let ?cmd = "(ex_cmd ''noop'' [])\<lparr>c_Dependencies := []\<rparr>" and ?reg = "ex_registry None"
  from ex_fresh obtain tid w1 where e: "Enqueue_Handle gateway_enqueue ?cmd ex_begin = (Inr tid, w1)"
    and f: "key ex_begin tid = Some 7 \<and> \<not> locked w1 7 \<and>
     (case view w1 7 of None \<Rightarrow> False | Some t \<Rightarrow> ScheduledAt t \<le> timestamptz (clock w1 0)) \<and>
     length (filter (ready (timestamptz (clock w1 0)) (db w1)) (tasks (db w1))) = 1"
    by (rule succeedsE)
  from f obtain t where t: "view w1 7 = Some t" "ScheduledAt t \<le> timestamptz (clock w1 0)" by (auto split: option.splits)
  let ?w2 = "w1\<lparr>faults := \<lambda>_. None\<rparr>"
  obtain r w3 where k: "tick (scheduler_loop ex_scheduler (recording ex_client)) ?w2 = (r, w3)" by fastforce
  have "1 \<le> sint (int32_of_int (cs_BatchSize ex_scheduler))" by code_simp
  with enqueue_to_completion [where ?w2.0 = ?w2 and ?w4.0 = "w3\<lparr>faults := \<lambda>_. None\<rparr>" and d = "ex_delivery (ID t)" and reg = ?reg
      and h = "ex_handle None" and call = 0 and n = 0 and es = "[]" and wcfg = ex_worker and rc' = "recording ex_client",
      OF ex_begin_inv e _ _ _ t(1) _ _ _ _ _ _ k] f t(2) ex_publish_ok
  obtain w5 t5 where "process (worker_execute ex_worker ?reg (recording ex_client)) (ex_delivery (ID t)) 0 [HandlerReturned]
       (w3\<lparr>faults := \<lambda>_. None\<rparr>) = (True, w5)" "view w5 7 = Some t5" "Status t5 = StatusCompleted" "Result t5 = Some [1]"
    by (auto simp: ex_cmd_def no_faults_def ex_delivery_def ex_registry_def)
  with e k show ?thesis by blast
qed

text \<open>What the monitor makes of a task whose worker is gone can be dispatched again.\<close>

lemma stuck_runnable:
  assumes "reachable rc0 w" "no_faults w" "view w k = Some t" "Status t = StatusRunning"
    and "UpdatedAt t < timestamptz (time_Add (clock w 0) (- cs_HBTimeout mcfg))" "ScheduledAt t \<le> now"
    and "w1 = heartbeat_check (scheduler_monitor mcfg) w"
  shows "pg_inv w1 \<and> key w1 = key w \<and> runnable w1 now k \<and>
     view w1 k = Some (t\<lparr>Status := StatusPending, WorkerID := [], UpdatedAt := timestamptz (clock w 1)\<rparr>)"
proof -
  have inv: "pg_inv w" by (rule reachable_inv [OF assms(1)])
  have w1: "pg_inv w1" "key w1 = key w"
    using step_ok_key [OF prod.check_step [OF inv, of "scheduler_monitor mcfg"]] assms(7) by simp_all
  have k: "view w1 k = Some (t\<lparr>Status := StatusPending, WorkerID := [], UpdatedAt := timestamptz (clock w 1)\<rparr>)"
    using assms(3-5,7) by (simp add: check_resets [OF assms(2)])
  have "\<exists>u t'. key w d = Some u \<and> view w1 u = Some t' \<and> Status t' = StatusCompleted" if d: "d \<in> set (Dependencies t)" for d
  proof -
    from d assms(3) obtain u where u: "(k, u) \<in> dep_edges (db w)" "key w d = Some u" using dep_edge_of [OF inv] by blast
    from dependencies_doneD [OF reachable_dependencies [OF assms(1)] assms(3) _ u(1)] assms(4) obtain t'
      where "view w u = Some t'" "Status t' = StatusCompleted" by (auto simp: started_def)
    with u(2) assms(7) show ?thesis by (simp add: check_resets [OF assms(2)])
  qed
  with w1 k assms(6) show ?thesis by (auto simp: runnable_def)
qed

text \<open>
  C8. A dead worker loses no task. In any reachable state, a running task whose last sign of life is
  older than the timeout, with or without dependencies, is put back by the monitor's next check,
  published again by a scheduler's tick at which it is due, its row is free and the batch has room
  for every ready task, with a Redis that accepts every entry, and completed under its identity by
  a worker that then receives it and has a handler for its type that succeeds. Between the steps
  clocks, locks, the driver and Redis may change; the driver does not fail in the check, in the
  tick and in the worker.
\<close>

theorem crash_recovery:
  assumes "reachable rc0 w" "no_faults w" "view w k = Some t" "Status t = StatusRunning"
    and "UpdatedAt t < timestamptz (time_Add (clock w 0) (- cs_HBTimeout mcfg))"
    and "w1 = heartbeat_check (scheduler_monitor mcfg) w"
    and "db w2 = db w1" "lib w2 = lib w1" "no_faults w2" "\<not> locked w2 k" "ScheduledAt t \<le> timestamptz (clock w2 0)"
    and "int (length (filter (ready (timestamptz (clock w2 0)) (db w2)) (tasks (db w2)))) \<le> sint (int32_of_int (cs_BatchSize scfg))"
    and "tick (scheduler_loop scfg (recording rc)) w2 = (r, w3)" "\<forall>s i w. \<not> isl (fst (Publish (recording rc) s i w))"
    and "db w4 = db w3" "lib w4 = lib w3" "no_faults w4" "d_TaskID d = ID t"
    and "handlers reg (Type t) = Some h" "er_err (h call (Payload t)) = None"
  shows "(taskStream, ID t) \<in> set (published (snd (rdb w3))) \<and>
     (\<exists>w5 t5. process (worker_execute wcfg reg rc') d call (replicate n HbTicker @ HandlerReturned # es) w4 = (True, w5) \<and>
        view w5 = (view w4)(k \<mapsto> t5) \<and> same_identity t t5 \<and> Status t5 = StatusCompleted \<and>
        Result t5 = er_result (h call (Payload t)))"
proof -
  let ?t = "t\<lparr>Status := StatusPending, WorkerID := [], UpdatedAt := timestamptz (clock w 1)\<rparr>"
  from stuck_runnable [OF assms(1-5,11,6)] have w1: "pg_inv w1" "runnable w1 (timestamptz (clock w2 0)) k" "view w1 k = Some ?t"
    by blast+
  have w2: "pg_inv w2" "key w2 = key w1" "view w2 = view w1" using pg_frame [OF assms(8,7)] w1(1) by simp_all
  then have "runnable w2 (timestamptz (clock w2 0)) k" "view w2 k = Some ?t" using w1(2,3) by (simp_all add: runnable_def)
  from queued_to_completion [OF w2(1) assms(9) this(1) assms(10) this(2) assms(12-17)] assms(18-20)
  have "(taskStream, ID t) \<in> set (published (snd (rdb w3)))" and
    "\<exists>w5 t5. process (worker_execute wcfg reg rc') d call (replicate n HbTicker @ HandlerReturned # es) w4 = (True, w5) \<and>
        view w5 = (view w4)(k \<mapsto> t5) \<and> same_identity ?t t5 \<and> Status t5 = StatusCompleted \<and>
        Result t5 = er_result (h call (Payload t))" by simp_all
  moreover have "same_identity t ?t" by (simp add: same_identity_def)
  ultimately show ?thesis using same_identity_trans by blast
qed

theorem crash_recovery_witness:
  "\<exists>r w3 d w5 t5.
     tick (scheduler_loop ex_scheduler (recording ex_client)) ex_reset = (r, w3) \<and>
     process (worker_execute ex_worker (ex_registry None) (recording ex_client)) d 0 [HandlerReturned]
       (w3\<lparr>faults := \<lambda>_. None\<rparr>) = (True, w5) \<and>
     view w5 7 = Some t5 \<and> Status t5 = StatusCompleted \<and> Result t5 = Some [1]"
proof -
  let ?reg = "ex_registry None"
  from ex_crashed_task obtain t where t: "view ex_crashed 7 = Some t" "Status t = StatusRunning" "Type t = ''noop''"
    "UpdatedAt t < timestamptz (time_Add (clock ex_crashed 0) (- cs_HBTimeout ex_scheduler))"
    "ScheduledAt t \<le> timestamptz (clock ex_reset 0)" by (auto split: option.splits)
  obtain r w3 where k: "tick (scheduler_loop ex_scheduler (recording ex_client)) ex_reset = (r, w3)" by fastforce
  have f: "no_faults ex_crashed" "no_faults ex_reset" "db ex_reset = db (heartbeat_check (scheduler_monitor ex_scheduler) ex_crashed)"
    "lib ex_reset = lib (heartbeat_check (scheduler_monitor ex_scheduler) ex_crashed)"
    by (simp_all add: no_faults_def ex_crashed_def ex_reset_def)
  have "1 \<le> sint (int32_of_int (cs_BatchSize ex_scheduler))" by code_simp
  with crash_recovery [where ?w4.0 = "w3\<lparr>faults := \<lambda>_. None\<rparr>" and d = "ex_delivery (ID t)" and reg = ?reg
      and h = "ex_handle None" and call = 0 and n = 0 and es = "[]" and wcfg = ex_worker and rc' = "recording ex_client",
      OF ex_crashed_reachable f(1) t(1,2,4) refl f(3,4,2) ex_reset_room(1) t(5) _ k] ex_reset_room(2) t(3) ex_publish_ok
  obtain w5 t5 where "process (worker_execute ex_worker ?reg (recording ex_client)) (ex_delivery (ID t)) 0 [HandlerReturned]
       (w3\<lparr>faults := \<lambda>_. None\<rparr>) = (True, w5)" "view w5 7 = Some t5" "Status t5 = StatusCompleted" "Result t5 = Some [1]"
    by (auto simp: no_faults_def ex_delivery_def ex_registry_def)
  with k show ?thesis by blast
qed

end
